theory Spec2Isabelle
  imports Complex_Main
begin

section \<open>The interaction loop (\<^verbatim>\<open>PyPi/core/core.py\<close>, class \<^verbatim>\<open>Core\<close>)\<close>

text \<open>
  Python floats are modelled as \<^typ>\<open>real\<close>, Python integers as \<^typ>\<open>int\<close>.
  The logger and the progress bar produce output only and are left out.
\<close>

datatype error = AssertionError | IndexError | ValueError

text \<open>
  A sample is the tuple
  \<^verbatim>\<open>(self._state, action, reward, next_state, absorbing, last)\<close> built by \<^verbatim>\<open>_step\<close>.
\<close>

type_synonym ('s, 'a) sample = "'s \<times> 'a \<times> real \<times> 's \<times> bool \<times> bool"

fun sample_state :: "('s, 'a) sample \<Rightarrow> 's" where
  "sample_state (s, a, r, s', ab, l) = s"

fun sample_action :: "('s, 'a) sample \<Rightarrow> 'a" where
  "sample_action (s, a, r, s', ab, l) = a"

fun sample_reward :: "('s, 'a) sample \<Rightarrow> real" where
  "sample_reward (s, a, r, s', ab, l) = r"

fun sample_next_state :: "('s, 'a) sample \<Rightarrow> 's" where
  "sample_next_state (s, a, r, s', ab, l) = s'"

fun sample_absorbing :: "('s, 'a) sample \<Rightarrow> bool" where
  "sample_absorbing (s, a, r, s', ab, l) = ab"

fun sample_last :: "('s, 'a) sample \<Rightarrow> bool" where
  "sample_last (s, a, r, s', ab, l) = l"

text \<open>
  The environment and the agent are objects defined outside \<^verbatim>\<open>core.py\<close>; the loop
  uses them through the methods below only. Each method is a parameter of the model: it
  takes the object's state (\<open>'env\<close> for the environment, \<open>'ag\<close> for the agent) and returns
  the new one with its result.
  \<^item> \<^verbatim>\<open>mdp.reset(state=None)\<close> returns the state the episode starts in;
  \<^item> \<^verbatim>\<open>mdp.step(action)\<close> returns \<^verbatim>\<open>(next_state, reward, absorbing, info)\<close>, of
    which the loop drops \<^verbatim>\<open>info\<close>;
  \<^item> \<^verbatim>\<open>mdp.render()\<close> and the attribute \<^verbatim>\<open>mdp.horizon\<close>, an integer;
  \<^item> \<^verbatim>\<open>agent.draw_action(state)\<close> and \<^verbatim>\<open>agent.fit(dataset, n_fit_steps)\<close>.
\<close>

record ('env, 'ag, 's, 'a) caps =
  mdp_reset :: "'s option \<Rightarrow> 'env \<Rightarrow> 's \<times> 'env"
  mdp_step :: "'a \<Rightarrow> 'env \<Rightarrow> ('s \<times> real \<times> bool) \<times> 'env"
  mdp_render :: "'env \<Rightarrow> 'env"
  mdp_horizon :: int
  draw_action :: "'s \<Rightarrow> 'ag \<Rightarrow> 'a \<times> 'ag"
  fit :: "('s, 'a) sample list \<Rightarrow> int \<Rightarrow> 'ag \<Rightarrow> 'ag"

text \<open>
  The fields of a \<^verbatim>\<open>Core\<close> object. A callback is a procedure of the dataset; what it
  writes (its own storage, or the agent it holds a reference to) lives with the agent in
  \<open>'ag\<close>, so that the order of \<^verbatim>\<open>fit\<close> and the callbacks is observable.
  \<^verbatim>\<open>cur_state\<close> is the attribute \<^verbatim>\<open>_state\<close>; \<^verbatim>\<open>iteration\<close> is the attribute
  the loops of \<^verbatim>\<open>learn\<close> assign, which does not exist before the first iteration.
\<close>

record ('env, 'ag, 's, 'a) core =
  agent :: 'ag
  mdp :: 'env
  callbacks :: "(('s, 'a) sample list \<Rightarrow> 'ag \<Rightarrow> 'ag) list"
  cur_state :: 's
  total_steps :: int
  episode_steps :: int
  iteration :: "int option"

text \<open>\<^verbatim>\<open>self._state = self.mdp.reset(s)\<close>\<close>

definition reset_state ::
  "('env, 'ag, 's, 'a) caps \<Rightarrow> 's option \<Rightarrow> ('env, 'ag, 's, 'a) core \<Rightarrow> ('env, 'ag, 's, 'a) core" where
  "reset_state K s c =
     (let r = mdp_reset K s (mdp c) in c\<lparr>mdp := snd r, cur_state := fst r\<rparr>)"

text \<open>\<^verbatim>\<open>Core._step\<close>: returns \<^verbatim>\<open>last\<close>, the dataset with the sample appended, and the object.\<close>

definition step ::
  "('env, 'ag, 's, 'a) caps \<Rightarrow> ('s, 'a) sample list \<Rightarrow> bool \<Rightarrow> ('env, 'ag, 's, 'a) core
   \<Rightarrow> bool \<times> ('s, 'a) sample list \<times> ('env, 'ag, 's, 'a) core" where
  "step K dataset render c =
     (let (action, ag') = draw_action K (cur_state c) (agent c);
          ((next_state, reward, absorbing), env') = mdp_step K action (mdp c);
          es = episode_steps c + 1;
          env'' = (if render then mdp_render K env' else env');
          last = (\<not> (es < mdp_horizon K \<and> \<not> absorbing));
          sample = (cur_state c, action, reward, next_state, absorbing, last)
      in (last, dataset @ [sample],
          c\<lparr>agent := ag', mdp := env'', episode_steps := es, cur_state := next_state\<rparr>))"

text \<open>
  \<^verbatim>\<open>Core._move_samples\<close>: the \<^verbatim>\<open>while i < how_many\<close> loop, with its counter.
\<close>

function move_samples_loop ::
  "('env, 'ag, 's, 'a) caps \<Rightarrow> int \<Rightarrow> int \<Rightarrow> bool \<Rightarrow> ('s, 'a) sample list
   \<Rightarrow> ('env, 'ag, 's, 'a) core \<Rightarrow> ('s, 'a) sample list \<times> ('env, 'ag, 's, 'a) core" where
  "move_samples_loop K i how_many render dataset c =
     (if i < how_many then
        (let r = step K dataset render c;
             c' = (if fst r then (reset_state K None (snd (snd r)))\<lparr>episode_steps := 0\<rparr>
                   else snd (snd r))
         in move_samples_loop K (i + 1) how_many render (fst (snd r)) c')
      else (dataset, c))"
  by pat_completeness auto
termination
  by (relation "measure (\<lambda>(K, i, how_many, render, dataset, c). nat (how_many - i))") auto

definition move_samples ::
  "('env, 'ag, 's, 'a) caps \<Rightarrow> int \<Rightarrow> bool \<Rightarrow> ('env, 'ag, 's, 'a) core
   \<Rightarrow> ('s, 'a) sample list \<times> ('env, 'ag, 's, 'a) core" where
  "move_samples K how_many render c = move_samples_loop K 0 how_many render [] c"

text \<open>
  \<^verbatim>\<open>Core._move_episodes\<close>. The inner loop
  \<^verbatim>\<open>while not self._step(dataset, render): continue\<close> steps until a step returns
  \<^verbatim>\<open>last\<close>. It ends because a step that does not return \<^verbatim>\<open>last\<close> has raised
  \<^verbatim>\<open>_episode_steps\<close> and left it below the horizon.
\<close>

function step_until_last ::
  "('env, 'ag, 's, 'a) caps \<Rightarrow> bool \<Rightarrow> ('s, 'a) sample list \<Rightarrow> ('env, 'ag, 's, 'a) core
   \<Rightarrow> ('s, 'a) sample list \<times> ('env, 'ag, 's, 'a) core" where
  "step_until_last K render dataset c =
     (let r = step K dataset render c
      in if \<not> fst r then step_until_last K render (fst (snd r)) (snd (snd r))
         else snd r)"
  by pat_completeness auto
termination
  by (relation "measure (\<lambda>(K, render, dataset, c). nat (mdp_horizon K - episode_steps c))")
     (auto simp: step_def Let_def split: prod.splits)

function move_episodes_loop ::
  "('env, 'ag, 's, 'a) caps \<Rightarrow> int \<Rightarrow> int \<Rightarrow> bool \<Rightarrow> ('s, 'a) sample list
   \<Rightarrow> ('env, 'ag, 's, 'a) core \<Rightarrow> ('s, 'a) sample list \<times> ('env, 'ag, 's, 'a) core" where
  "move_episodes_loop K i how_many render dataset c =
     (if i < how_many then
        (let r = step_until_last K render dataset c;
             c' = (reset_state K None (snd r))\<lparr>episode_steps := 0\<rparr>
         in move_episodes_loop K (i + 1) how_many render (fst r) c')
      else (dataset, c))"
  by pat_completeness auto
termination
  by (relation "measure (\<lambda>(K, i, how_many, render, dataset, c). nat (how_many - i))") auto

definition move_episodes ::
  "('env, 'ag, 's, 'a) caps \<Rightarrow> int \<Rightarrow> bool \<Rightarrow> ('env, 'ag, 's, 'a) core
   \<Rightarrow> ('s, 'a) sample list \<times> ('env, 'ag, 's, 'a) core" where
  "move_episodes K how_many render c =
     move_episodes_loop K 0 how_many render [] (c\<lparr>episode_steps := 0\<rparr>)"

text \<open>\<^verbatim>\<open>Core.reset\<close>\<close>

definition reset :: "('env, 'ag, 's, 'a) caps \<Rightarrow> ('env, 'ag, 's, 'a) core \<Rightarrow> ('env, 'ag, 's, 'a) core" where
  "reset K c = (reset_state K None c)\<lparr>total_steps := 0, episode_steps := 0\<rparr>"

text \<open>
  \<^verbatim>\<open>Core.learn\<close>. \<^verbatim>\<open>for c in self.callbacks: c(dataset)\<close> calls the callbacks in the
  order of the list. The two loop bodies are those of the source; \<^verbatim>\<open>xrange(n)\<close> is the
  list \<open>[0..n - 1]\<close>, empty when \<open>n \<le> 0\<close>. The argument \<^verbatim>\<open>quiet\<close> only reaches the
  progress bar. A failed \<^verbatim>\<open>assert\<close> is returned as \<^const>\<open>AssertionError\<close> together with
  the object as it is when the exception leaves the method.
\<close>

definition run_callbacks ::
  "('s, 'a) sample list \<Rightarrow> ('env, 'ag, 's, 'a) core \<Rightarrow> ('env, 'ag, 's, 'a) core" where
  "run_callbacks dataset c = c\<lparr>agent := foldl (\<lambda>w cb. cb dataset w) (agent c) (callbacks c)\<rparr>"

definition learn_samples_body ::
  "('env, 'ag, 's, 'a) caps \<Rightarrow> int \<Rightarrow> int \<Rightarrow> bool \<Rightarrow> ('env, 'ag, 's, 'a) core \<Rightarrow> int
   \<Rightarrow> ('env, 'ag, 's, 'a) core" where
  "learn_samples_body K how_many n_fit_steps render c it =
     (let r = move_samples K how_many render (c\<lparr>iteration := Some it\<rparr>);
          dataset = fst r;
          c1 = (snd r)\<lparr>agent := fit K dataset n_fit_steps (agent (snd r))\<rparr>;
          c2 = run_callbacks dataset c1
      in c2\<lparr>total_steps := total_steps c2 + 1\<rparr>)"

definition learn_episodes_body ::
  "('env, 'ag, 's, 'a) caps \<Rightarrow> int \<Rightarrow> int \<Rightarrow> bool \<Rightarrow> ('env, 'ag, 's, 'a) core \<Rightarrow> int
   \<Rightarrow> ('env, 'ag, 's, 'a) core" where
  "learn_episodes_body K how_many n_fit_steps render c it =
     (let r = move_episodes K how_many render (c\<lparr>iteration := Some it\<rparr>);
          dataset = fst r;
          c1 = (snd r)\<lparr>agent := fit K dataset n_fit_steps (agent (snd r))\<rparr>
      in run_callbacks dataset c1)"

definition learn ::
  "('env, 'ag, 's, 'a) caps \<Rightarrow> int \<Rightarrow> int \<Rightarrow> int \<Rightarrow> string \<Rightarrow> bool \<Rightarrow> ('env, 'ag, 's, 'a) core
   \<Rightarrow> (error + unit) \<times> ('env, 'ag, 's, 'a) core" where
  "learn K n_iterations how_many n_fit_steps iterate_over render c =
     (if \<not> (iterate_over = ''samples'' \<or> iterate_over = ''episodes'') then (Inl AssertionError, c)
      else if iterate_over = ''samples'' then
        (Inr (), foldl (learn_samples_body K how_many n_fit_steps render) c [0..n_iterations - 1])
      else
        (Inr (), foldl (learn_episodes_body K how_many n_fit_steps render) c [0..n_iterations - 1]))"

text \<open>
  \<^verbatim>\<open>Core.evaluate\<close>. \<^verbatim>\<open>initial_states\<close> is \<^verbatim>\<open>None\<close> or an array with one initial
  state per row, here the list of its rows. Each loop body returns the dataset grown by
  \<^verbatim>\<open>dataset += ...\<close> and the object.
\<close>

definition evaluate_initial_body ::
  "('env, 'ag, 's, 'a) caps \<Rightarrow> bool \<Rightarrow> ('s, 'a) sample list \<times> ('env, 'ag, 's, 'a) core \<Rightarrow> 's
   \<Rightarrow> ('s, 'a) sample list \<times> ('env, 'ag, 's, 'a) core" where
  "evaluate_initial_body K render dc s0 =
     (let r = move_episodes K 1 render (reset_state K (Some s0) (snd dc))
      in (fst dc @ fst r, snd r))"

definition evaluate_episodes_body ::
  "('env, 'ag, 's, 'a) caps \<Rightarrow> bool \<Rightarrow> ('s, 'a) sample list \<times> ('env, 'ag, 's, 'a) core \<Rightarrow> int
   \<Rightarrow> ('s, 'a) sample list \<times> ('env, 'ag, 's, 'a) core" where
  "evaluate_episodes_body K render dc j =
     (let r = move_episodes K 1 render (reset_state K None (snd dc))
      in (fst dc @ fst r, snd r))"

definition evaluate_samples_body ::
  "('env, 'ag, 's, 'a) caps \<Rightarrow> bool \<Rightarrow> ('s, 'a) sample list \<times> ('env, 'ag, 's, 'a) core \<Rightarrow> int
   \<Rightarrow> ('s, 'a) sample list \<times> ('env, 'ag, 's, 'a) core" where
  "evaluate_samples_body K render dc j =
     (let r = move_samples K 1 render (snd dc)
      in (fst dc @ fst r, snd r))"

definition evaluate ::
  "('env, 'ag, 's, 'a) caps \<Rightarrow> int \<Rightarrow> string \<Rightarrow> 's list option \<Rightarrow> bool \<Rightarrow> ('env, 'ag, 's, 'a) core
   \<Rightarrow> (error + ('s, 'a) sample list) \<times> ('env, 'ag, 's, 'a) core" where
  "evaluate K how_many iterate_over initial_states render c =
     (case initial_states of
        Some inits \<Rightarrow>
          if iterate_over \<noteq> ''episodes'' then (Inl AssertionError, c)
          else (let r = foldl (evaluate_initial_body K render) ([], c) inits
                in (Inr (fst r), snd r))
      | None \<Rightarrow>
          if iterate_over = ''episodes'' then
            (let r = foldl (evaluate_episodes_body K render) ([], c) [0..how_many - 1]
             in (Inr (fst r), snd r))
          else
            (let r = foldl (evaluate_samples_body K render) ([], reset_state K None c)
                       [0..how_many - 1]
             in (Inr (fst r), snd r)))"

section \<open>SARSA(\<open>\<lambda>\<close>) (\<^verbatim>\<open>mushroom_rl/algorithms/value/td/sarsa_lambda.py\<close>)\<close>

subsection \<open>The value table and the eligibility trace\<close>

text \<open>
  A table is a two-dimensional array of floats, one row per state and one column per
  action, here a list of rows. States and actions are indices.
\<close>

type_synonym table = "real list list"

definition in_table :: "table \<Rightarrow> nat \<Rightarrow> nat \<Rightarrow> bool" where
  "in_table t s a = (s < length t \<and> a < length (t ! s))"

text \<open>
  Modelled from the spec: the classes \<^verbatim>\<open>Table\<close> and \<^verbatim>\<open>EligibilityTrace\<close> of
  \<^verbatim>\<open>mushroom_rl.utils\<close> are not among the sources. The spec (4.2) gives the table
  an indexed read and write, a construction filled with zeros and a shape fixed from then
  on; an index outside the shape raises, as for the array underneath.
\<close>

definition table_zeros :: "nat \<times> nat \<Rightarrow> table" where
  "table_zeros shape = replicate (fst shape) (replicate (snd shape) 0)"

definition table_get :: "table \<Rightarrow> nat \<Rightarrow> nat \<Rightarrow> error + real" where
  "table_get t s a = (if in_table t s a then Inr (t ! s ! a) else Inl IndexError)"

definition table_set :: "table \<Rightarrow> nat \<Rightarrow> nat \<Rightarrow> real \<Rightarrow> error + table" where
  "table_set t s a v =
     (if in_table t s a then Inr (t[s := (t ! s)[a := v]]) else Inl IndexError)"

text \<open>
  Modelled from the spec: the trace (4.3) has the shape of the table; \<^verbatim>\<open>reset()\<close>
  zeroes every entry; \<^verbatim>\<open>update(state, action)\<close> sets the entry of the pair to 1.0 in
  the replacing variant and adds 1.0 to it in the accumulating variant, and leaves the
  other entries as they are.
\<close>

datatype trace_kind = Replacing | Accumulating

definition e_reset :: "table \<Rightarrow> table" where
  "e_reset t = map (map (\<lambda>x. 0)) t"

definition e_update :: "trace_kind \<Rightarrow> table \<Rightarrow> nat \<Rightarrow> nat \<Rightarrow> error + table" where
  "e_update kind t s a =
     (case kind of
        Replacing \<Rightarrow> table_set t s a 1
      | Accumulating \<Rightarrow>
          (case table_get t s a of Inl err \<Rightarrow> Inl err | Inr v \<Rightarrow> table_set t s a (v + 1)))"

text \<open>
  The array operations of \<^verbatim>\<open>_update\<close>: a scalar times an array, the in-place
  \<^verbatim>\<open>+=\<close> of two arrays, which raises when the shapes differ, and the in-place
  \<^verbatim>\<open>*=\<close> of an array by a scalar.
\<close>

definition scalar_mul :: "real \<Rightarrow> table \<Rightarrow> table" where
  "scalar_mul k t = map (map (\<lambda>x. k * x)) t"

definition table_iadd :: "table \<Rightarrow> table \<Rightarrow> error + table" where
  "table_iadd t u =
     (if map length t = map length u then Inr (map2 (map2 (\<lambda>x y. x + y)) t u)
      else Inl ValueError)"

definition table_imul :: "table \<Rightarrow> real \<Rightarrow> table" where
  "table_imul t k = map (map (\<lambda>x. x * k)) t"

subsection \<open>The agent\<close>

text \<open>
  The attributes of a \<^verbatim>\<open>SARSALambda\<close> object: \<^verbatim>\<open>Q.table\<close>, \<^verbatim>\<open>_lambda\<close>,
  \<^verbatim>\<open>e.table\<close> and the variant of \<^verbatim>\<open>e\<close>, \<^verbatim>\<open>mdp_info.gamma\<close>,
  \<^verbatim>\<open>next_action\<close>, and in \<open>'x\<close> the objects that the superclass \<^verbatim>\<open>TD\<close> holds and
  this file never looks into (the policy and the learning rate).
\<close>

record 'x sarsa_lambda =
  Q_table :: table
  lambda_coeff :: real
  e_table :: table
  trace :: trace_kind
  mdp_gamma :: real
  next_action :: "nat option"
  ext :: 'x

text \<open>
  The methods inherited from \<^verbatim>\<open>TD\<close>, which is not among the sources, are parameters:
  \<^verbatim>\<open>self.draw_action(state)\<close> and \<^verbatim>\<open>self.alpha(state, action)\<close> read the agent and
  return a value and the new state of the policy and the learning rate;
  \<^verbatim>\<open>super().episode_start()\<close> returns that state and \<^verbatim>\<open>next_action\<close>.
\<close>

record 'x td_caps =
  td_draw_action :: "'x sarsa_lambda \<Rightarrow> nat \<Rightarrow> nat \<times> 'x"
  td_alpha :: "'x sarsa_lambda \<Rightarrow> nat \<Rightarrow> nat \<Rightarrow> real \<times> 'x"
  td_episode_start :: "'x sarsa_lambda \<Rightarrow> 'x \<times> nat option"

text \<open>\<^verbatim>\<open>SARSALambda.__init__\<close>: the table and the trace are built with the same shape.\<close>

definition init :: "nat \<times> nat \<Rightarrow> real \<Rightarrow> 'x \<Rightarrow> real \<Rightarrow> trace_kind \<Rightarrow> 'x sarsa_lambda" where
  "init mdp_size gam x lam kind =
     \<lparr>Q_table = table_zeros mdp_size, lambda_coeff = lam, e_table = table_zeros mdp_size,
      trace = kind, mdp_gamma = gam, next_action = None, ext = x\<rparr>"

text \<open>\<^verbatim>\<open>SARSALambda._update\<close>, statement by statement; an exception ends the call.\<close>

definition update ::
  "'x td_caps \<Rightarrow> nat \<Rightarrow> nat \<Rightarrow> real \<Rightarrow> nat \<Rightarrow> bool \<Rightarrow> 'x sarsa_lambda \<Rightarrow> error + 'x sarsa_lambda" where
  "update T state action reward next_state absorbing ag =
     (case table_get (Q_table ag) state action of
        Inl err \<Rightarrow> Inl err
      | Inr q_current \<Rightarrow>
          (let d = td_draw_action T ag next_state;
               ag1 = ag\<lparr>next_action := Some (fst d), ext := snd d\<rparr>
           in case (if \<not> absorbing then table_get (Q_table ag1) next_state (fst d) else Inr 0) of
                Inl err \<Rightarrow> Inl err
              | Inr q_next \<Rightarrow>
                  (let delta = reward + mdp_gamma ag1 * q_next - q_current
                   in case e_update (trace ag1) (e_table ag1) state action of
                        Inl err \<Rightarrow> Inl err
                      | Inr e1 \<Rightarrow>
                          (let ag2 = ag1\<lparr>e_table := e1\<rparr>;
                               al = td_alpha T ag2 state action;
                               ag3 = ag2\<lparr>ext := snd al\<rparr>
                           in case table_iadd (Q_table ag3)
                                     (scalar_mul (fst al * delta) (e_table ag3)) of
                                Inl err \<Rightarrow> Inl err
                              | Inr q' \<Rightarrow>
                                  Inr (ag3\<lparr>Q_table := q',
                                           e_table := table_imul (e_table ag3)
                                             (mdp_gamma ag3 * lambda_coeff ag3)\<rparr>)))))"

text \<open>\<^verbatim>\<open>SARSALambda.episode_start\<close>\<close>

definition episode_start :: "'x td_caps \<Rightarrow> 'x sarsa_lambda \<Rightarrow> 'x sarsa_lambda" where
  "episode_start T ag =
     (let ag1 = ag\<lparr>e_table := e_reset (e_table ag)\<rparr>;
          r = td_episode_start T ag1
      in ag1\<lparr>ext := fst r, next_action := snd r\<rparr>)"

text \<open>
  Modelled from the spec: the callers of \<^verbatim>\<open>episode_start\<close> and \<^verbatim>\<open>_update\<close> (the
  \<^verbatim>\<open>fit\<close> of \<^verbatim>\<open>TD\<close> and the episode hooks) are not among the sources. By the spec
  (4.3, 4.4) an episode begins with \<^verbatim>\<open>episode_start\<close> and then its transitions are
  processed one at a time, so the life of an agent is a sequence of these two calls.
\<close>

datatype call = EpisodeStart | Update nat nat real nat bool

fun run :: "'x td_caps \<Rightarrow> call list \<Rightarrow> 'x sarsa_lambda \<Rightarrow> error + 'x sarsa_lambda" where
  "run T [] ag = Inr ag"
| "run T (EpisodeStart # cs) ag = run T cs (episode_start T ag)"
| "run T (Update s a r s' ab # cs) ag =
     (case update T s a r s' ab ag of Inl err \<Rightarrow> Inl err | Inr ag' \<Rightarrow> run T cs ag')"

section \<open>Notions used in the statements\<close>

text \<open>
  The sample that \<^verbatim>\<open>_step\<close> appends when it is called on the object \<open>c\<close>.
\<close>

definition step_sample ::
  "('env, 'ag, 's, 'a) caps \<Rightarrow> ('env, 'ag, 's, 'a) core \<Rightarrow> ('s, 'a) sample" where
  "step_sample K c = last (fst (snd (step K [] False c)))"

text \<open>
  An episode, as a piece of a dataset: it is not empty, its final sample has the flag
  \<^verbatim>\<open>last\<close> and no earlier one has.
\<close>

definition is_episode :: "('s, 'a) sample list \<Rightarrow> bool" where
  "is_episode ep = (ep \<noteq> [] \<and> sample_last (last ep) \<and> list_all (\<lambda>t. \<not> sample_last t) (butlast ep))"

text \<open>
  A dataset is chained when every sample that is not the last of its episode is followed
  by a sample that starts in the state it ended in; it joins a state when its final
  sample, if it does not end an episode, ended in that state.
\<close>

fun chained :: "('s, 'a) sample list \<Rightarrow> bool" where
  "chained (x # y # xs) = ((sample_last x \<or> sample_next_state x = sample_state y) \<and> chained (y # xs))"
| "chained xs = True"

definition joins :: "('s, 'a) sample list \<Rightarrow> 's \<Rightarrow> bool" where
  "joins ds s = (ds = [] \<or> sample_last (last ds) \<or> sample_next_state (last ds) = s)"

definition linked :: "('s, 'a) sample list \<Rightarrow> ('env, 'ag, 's, 'a) core \<Rightarrow> bool" where
  "linked ds c = (chained ds \<and> joins ds (cur_state c))"

text \<open>
  The value \<^verbatim>\<open>e.update\<close> writes at the visited pair, and the bound on the trace.
\<close>

definition bump :: "trace_kind \<Rightarrow> real \<Rightarrow> real" where
  "bump kind v = (case kind of Replacing \<Rightarrow> 1 | Accumulating \<Rightarrow> v + 1)"

definition trace_bounded :: "table \<Rightarrow> bool" where
  "trace_bounded t = list_all (list_all (\<lambda>x. 0 \<le> x \<and> x \<le> 1)) t"

definition coeffs_ok :: "'x sarsa_lambda \<Rightarrow> bool" where
  "coeffs_ok ag = (0 \<le> mdp_gamma ag \<and> mdp_gamma ag \<le> 1 \<and> 0 \<le> lambda_coeff ag \<and>
     lambda_coeff ag \<le> 1 \<and> trace ag = Replacing)"

section \<open>Example instances\<close>

text \<open>
  A corridor: the state is the position, a step moves one cell on with reward 1 and never
  absorbs. The agent-side state is the list of the calls it has seen.
\<close>

definition corridor :: "int \<Rightarrow> (nat, string list, nat, nat) caps" where
  "corridor h =
     \<lparr>mdp_reset = (\<lambda>s env. (case s of None \<Rightarrow> (0, 0) | Some x \<Rightarrow> (x, x))),
      mdp_step = (\<lambda>a env. ((env + 1, 1, False), env + 1)),
      mdp_render = (\<lambda>env. env),
      mdp_horizon = h,
      draw_action = (\<lambda>s ag. (0, ag @ [''draw''])),
      fit = (\<lambda>ds n ag. ag @ [''fit''])\<rparr>"

definition core0 :: "(nat, string list, nat, nat) core" where
  "core0 = \<lparr>agent = [], mdp = 0,
            callbacks = [\<lambda>ds ag. ag @ [''first''], \<lambda>ds ag. ag @ [''second'']],
            cur_state = 0, total_steps = 0, episode_steps = 0, iteration = None\<rparr>"

text \<open>
  A SARSA(\<open>\<lambda>\<close>) agent on four states and two actions, with a policy that always draws
  action 0 and a constant learning rate; the same agent with \<open>\<lambda> = 0\<close>, the accumulating
  trace and a trace left over from an earlier episode; and that agent at the start of an
  episode.
\<close>

definition example_td :: "unit td_caps" where
  "example_td =
     \<lparr>td_draw_action = (\<lambda>ag s. (0, ())),
      td_alpha = (\<lambda>ag s a. (1 / 2, ())),
      td_episode_start = (\<lambda>ag. ((), None))\<rparr>"

definition example_agent :: "unit sarsa_lambda" where
  "example_agent = (init (4, 2) (1 / 2) () (1 / 2) Replacing)\<lparr>Q_table := [[1, 2], [3, 4], [5, 6], [7, 8]]\<rparr>"

definition example_agent_acc :: "unit sarsa_lambda" where
  "example_agent_acc =
     example_agent\<lparr>lambda_coeff := 0, trace := Accumulating,
                   e_table := [[1, 1], [1, 1], [1, 1], [1, 1]]\<rparr>"

definition example_agent0 :: "unit sarsa_lambda" where
  "example_agent0 = episode_start example_td example_agent_acc"

section \<open>Properties of the interaction loop\<close>

lemmas ex_defs = example_agent_def example_td_def init_def table_zeros_def in_table_def
  update_def table_get_def table_set_def e_update_def table_iadd_def scalar_mul_def table_imul_def
  Let_def episode_start_def e_reset_def

lemma step_dataset: "fst (snd (step K ds render c)) = ds @ [step_sample K c]"
  by (simp add: step_def step_sample_def Let_def split: prod.splits)

lemma step_fst: "fst (step K ds render c) = sample_last (step_sample K c)"
  by (simp add: step_def step_sample_def Let_def split: prod.splits)

lemma step_sample_last:
  "sample_last (step_sample K c) =
     (sample_absorbing (step_sample K c) \<or> mdp_horizon K \<le> episode_steps c + 1)"
  by (auto simp add: step_def step_sample_def Let_def split: prod.splits)

lemma step_sample_state: "sample_state (step_sample K c) = cur_state c"
  by (simp add: step_def step_sample_def Let_def split: prod.splits)

lemma step_cur_state:
  "cur_state (snd (snd (step K ds render c))) = sample_next_state (step_sample K c)"
  by (simp add: step_def step_sample_def Let_def split: prod.splits)

lemma step_episode_steps:
  "episode_steps (snd (snd (step K ds render c))) = episode_steps c + 1"
  by (simp add: step_def Let_def split: prod.splits)

lemma step_frame:
  "callbacks (snd (snd (step K ds render c))) = callbacks c"
  "total_steps (snd (snd (step K ds render c))) = total_steps c"
  "iteration (snd (snd (step K ds render c))) = iteration c"
  by (simp_all add: step_def Let_def split: prod.splits)

declare step_until_last.simps [simp del] move_samples_loop.simps [simp del]
  move_episodes_loop.simps [simp del]

lemma step_until_last_episode:
  "\<exists>ep. fst (step_until_last K render ds c) = ds @ ep \<and> is_episode ep"
proof (induction K render ds c rule: step_until_last.induct)
  case (1 K render dataset c)
  show ?case
  proof (cases "fst (step K dataset render c)")
    case True
    then have "fst (step_until_last K render dataset c) = dataset @ [step_sample K c]"
      by (subst step_until_last.simps) (simp add: Let_def step_dataset)
    moreover have "is_episode [step_sample K c]"
      using True by (simp add: is_episode_def step_fst)
    ultimately show ?thesis by blast
  next
    case False
    then obtain ep where ep: "fst (step_until_last K render (dataset @ [step_sample K c]) (snd (snd (step K dataset render c)))) = (dataset @ [step_sample K c]) @ ep" "is_episode ep"
      using 1 by (auto simp: step_dataset)
    have "fst (step_until_last K render dataset c) = dataset @ (step_sample K c # ep)"
      using False ep(1) by (subst step_until_last.simps) (simp add: Let_def step_dataset)
    moreover have "is_episode (step_sample K c # ep)"
      using False ep(2) by (auto simp: is_episode_def step_fst)
    ultimately show ?thesis by blast
  qed
qed

lemma move_episodes_loop_episodes:
  "\<exists>eps. fst (move_episodes_loop K i n render ds c) = ds @ concat eps \<and>
         length eps = nat (n - i) \<and> list_all is_episode eps"
proof (induction K i n render ds c rule: move_episodes_loop.induct)
  case (1 K i how_many render dataset c)
  show ?case
  proof (cases "i < how_many")
    case False
    then have "fst (move_episodes_loop K i how_many render dataset c) = dataset"
      by (subst move_episodes_loop.simps) simp
    then show ?thesis using False by (intro exI[of _ "[]"]) simp
  next
    case True
    define r where "r = step_until_last K render dataset c"
    define c' where "c' = (reset_state K None (snd r))\<lparr>episode_steps := 0\<rparr>"
    obtain ep where ep: "fst r = dataset @ ep" "is_episode ep"
      using step_until_last_episode[of K render dataset c] by (auto simp: r_def)
    obtain eps where eps:
      "fst (move_episodes_loop K (i + 1) how_many render (fst r) c') = fst r @ concat eps"
      "length eps = nat (how_many - (i + 1))" "list_all is_episode eps"
      using 1[OF True r_def c'_def] by blast
    have "fst (move_episodes_loop K i how_many render dataset c) = dataset @ concat (ep # eps)"
      using True eps(1) ep(1)
      by (subst move_episodes_loop.simps) (simp add: Let_def r_def[symmetric] c'_def[symmetric])
    moreover have "length (ep # eps) = nat (how_many - i)"
      using True eps(2) by simp
    moreover have "list_all is_episode (ep # eps)"
      using ep(2) eps(3) by simp
    ultimately show ?thesis by blast
  qed
qed

lemma move_samples_loop_length:
  "length (fst (move_samples_loop K i n render ds c)) = length ds + nat (n - i)"
proof (induction K i n render ds c rule: move_samples_loop.induct)
  case (1 K i how_many render dataset c)
  show ?case
  proof (cases "i < how_many")
    case False
    then show ?thesis by (subst move_samples_loop.simps) simp
  next
    case True
    define r where "r = step K dataset render c"
    define c' where "c' = (if fst r then (reset_state K None (snd (snd r)))\<lparr>episode_steps := 0\<rparr>
                   else snd (snd r))"
    have "length (fst (move_samples_loop K (i + 1) how_many render (fst (snd r)) c')) =
          length (fst (snd r)) + nat (how_many - (i + 1))"
      using 1[OF True r_def c'_def] .
    moreover have "length (fst (snd r)) = length dataset + 1"
      by (simp add: r_def step_dataset)
    ultimately show ?thesis
      using True
      by (subst move_samples_loop.simps) (simp add: Let_def r_def[symmetric] c'_def[symmetric])
  qed
qed

lemma count_last_episode: "is_episode ep \<Longrightarrow> length (filter sample_last ep) = 1"
proof -
  assume a: "is_episode ep"
  then have "ep = butlast ep @ [last ep]" by (simp add: is_episode_def)
  then have "filter sample_last ep = filter sample_last (butlast ep) @ filter sample_last [last ep]"
    by (metis filter_append)
  moreover have "filter sample_last (butlast ep) = []"
    using a by (auto simp: is_episode_def list_all_iff filter_empty_conv)
  ultimately show ?thesis using a by (simp add: is_episode_def)
qed

lemma count_last_concat:
  "list_all is_episode eps \<Longrightarrow> length (filter sample_last (concat eps)) = length eps"
  by (induction eps) (simp_all add: count_last_episode)

lemma step_sample_absorbing:
  "sample_absorbing (step_sample K c) =
     snd (snd (fst (mdp_step K (fst (draw_action K (cur_state c) (agent c))) (mdp c))))"
  by (simp add: step_def step_sample_def Let_def split: prod.splits)

lemma step_until_last_unfold:
  "step_until_last K render ds c =
     (if sample_last (step_sample K c) then (ds @ [step_sample K c], snd (snd (step K ds render c)))
      else step_until_last K render (ds @ [step_sample K c]) (snd (snd (step K ds render c))))"
proof -
  have "snd (step K ds render c) = (ds @ [step_sample K c], snd (snd (step K ds render c)))"
    by (metis step_dataset prod.collapse)
  then show ?thesis
    by (subst step_until_last.simps) (simp add: Let_def step_fst step_dataset)
qed

lemma horizon_three:
  assumes h: "mdp_horizon K = 3"
    and na: "\<And>a env. \<not> snd (snd (fst (mdp_step K a env)))"
    and es: "episode_steps c = 0"
  shows "map sample_last (fst (step_until_last K render ds c)) = map sample_last ds @ [False, False, True]"
proof -
  define c1 where "c1 = snd (snd (step K ds render c))"
  define d1 where "d1 = ds @ [step_sample K c]"
  define c2 where "c2 = snd (snd (step K d1 render c1))"
  define d2 where "d2 = d1 @ [step_sample K c1]"
  have e1: "episode_steps c1 = 1" by (simp add: c1_def step_episode_steps es)
  have e2: "episode_steps c2 = 2" by (simp add: c2_def step_episode_steps e1)
  have l0: "\<not> sample_last (step_sample K c)"
    by (simp add: step_sample_last step_sample_absorbing na h es)
  have l1: "\<not> sample_last (step_sample K c1)"
    by (simp add: step_sample_last step_sample_absorbing na h e1)
  have l2: "sample_last (step_sample K c2)"
    by (simp add: step_sample_last step_sample_absorbing na h e2)
  have "step_until_last K render ds c = step_until_last K render d1 c1"
    using l0 by (subst step_until_last_unfold) (simp add: d1_def c1_def)
  also have "\<dots> = step_until_last K render d2 c2"
    using l1 by (subst step_until_last_unfold) (simp add: d2_def c2_def)
  also have "fst \<dots> = d2 @ [step_sample K c2]"
    using l2 by (subst step_until_last_unfold) simp
  finally show ?thesis using l0 l1 l2 by (simp add: d2_def d1_def)
qed

lemma move_episodes_loop_one:
  "fst (move_episodes_loop K 0 1 render ds c) = fst (step_until_last K render ds c)"
proof -
  have a: "move_episodes_loop K 1 1 render ds' c' = (ds', c')" for ds' c'
    by (subst move_episodes_loop.simps) simp
  show ?thesis
    by (subst move_episodes_loop.simps) (simp add: Let_def a)
qed

lemma horizon_three_episode:
  assumes h: "mdp_horizon K = 3"
    and na: "\<And>a env. \<not> snd (snd (fst (mdp_step K a env)))"
  shows "map sample_last (fst (move_episodes K 1 render c)) = [False, False, True]"
  using horizon_three[OF h na, of "c\<lparr>episode_steps := 0\<rparr>" render "[]"]
  by (simp add: move_episodes_def move_episodes_loop_one)

lemma chained_snoc: "chained (ds @ [x]) = (chained ds \<and> joins ds (sample_state x))"
  by (induction ds rule: chained.induct) (auto simp: joins_def)

lemma chained_nth:
  "chained ds \<Longrightarrow> Suc i < length ds \<Longrightarrow> \<not> sample_last (ds ! i)
     \<Longrightarrow> sample_next_state (ds ! i) = sample_state (ds ! Suc i)"
proof (induction ds arbitrary: i rule: chained.induct)
  case (1 x y xs)
  then show ?case by (cases i) auto
qed auto

lemma linked_step:
  "linked ds c \<Longrightarrow> linked (fst (snd (step K ds render c))) (snd (snd (step K ds render c)))"
  by (simp add: linked_def step_dataset chained_snoc step_sample_state step_cur_state joins_def)

lemma linked_reset:
  "linked ds c \<Longrightarrow> sample_last (last ds) \<Longrightarrow> linked ds ((reset_state K s c)\<lparr>episode_steps := 0\<rparr>)"
  by (auto simp add: linked_def joins_def)

lemma step_until_last_linked:
  "linked ds c \<Longrightarrow> linked (fst (step_until_last K render ds c)) (snd (step_until_last K render ds c))
     \<and> sample_last (last (fst (step_until_last K render ds c)))"
proof (induction K render ds c rule: step_until_last.induct)
  case (1 K render dataset c)
  show ?case
  proof (cases "fst (step K dataset render c)")
    case True
    then have "step_until_last K render dataset c = snd (step K dataset render c)"
      by (subst step_until_last.simps) (simp add: Let_def)
    then show ?thesis using linked_step[OF 1(2), of K render] True
      by (simp add: step_dataset step_fst)
  next
    case False
    then have "step_until_last K render dataset c =
       step_until_last K render (fst (snd (step K dataset render c))) (snd (snd (step K dataset render c)))"
      by (subst step_until_last.simps) (simp add: Let_def)
    then show ?thesis using 1(1)[OF refl False linked_step[OF 1(2)]] by simp
  qed
qed

lemma move_episodes_loop_linked:
  "linked ds c \<Longrightarrow> linked (fst (move_episodes_loop K i n render ds c)) (snd (move_episodes_loop K i n render ds c))"
proof (induction K i n render ds c rule: move_episodes_loop.induct)
  case (1 K i how_many render dataset c)
  show ?case
  proof (cases "i < how_many")
    case False
    then show ?thesis using 1(2) by (subst (1 2) move_episodes_loop.simps) simp
  next
    case True
    define r where "r = step_until_last K render dataset c"
    define c' where "c' = (reset_state K None (snd r))\<lparr>episode_steps := 0\<rparr>"
    have "linked (fst r) (snd r)" "sample_last (last (fst r))"
      using step_until_last_linked[OF 1(2), of K render] by (simp_all add: r_def)
    then have "linked (fst r) c'" unfolding c'_def by (rule linked_reset)
    from 1(1)[OF True r_def c'_def this] show ?thesis
      using True
      by (subst (1 2) move_episodes_loop.simps) (simp add: Let_def r_def[symmetric] c'_def[symmetric])
  qed
qed

lemma move_samples_loop_linked:
  "linked ds c \<Longrightarrow> linked (fst (move_samples_loop K i n render ds c)) (snd (move_samples_loop K i n render ds c))"
proof (induction K i n render ds c rule: move_samples_loop.induct)
  case (1 K i how_many render dataset c)
  show ?case
  proof (cases "i < how_many")
    case False
    then show ?thesis using 1(2) by (subst (1 2) move_samples_loop.simps) simp
  next
    case True
    define r where "r = step K dataset render c"
    define c' where "c' = (if fst r then (reset_state K None (snd (snd r)))\<lparr>episode_steps := 0\<rparr>
                   else snd (snd r))"
    have l: "linked (fst (snd r)) (snd (snd r))"
      using linked_step[OF 1(2), of K render] by (simp add: r_def)
    have "linked (fst (snd r)) c'"
    proof (cases "fst r")
      case True
      then have "sample_last (last (fst (snd r)))" by (simp add: r_def step_fst step_dataset)
      with l show ?thesis using True unfolding c'_def by (simp add: linked_reset)
    next
      case False
      with l show ?thesis by (simp add: c'_def)
    qed
    from 1(1)[OF True r_def c'_def this] show ?thesis
      using True
      by (subst (1 2) move_samples_loop.simps) (simp add: Let_def r_def[symmetric] c'_def[symmetric])
  qed
qed

lemma reset_state_frame:
  "agent (reset_state K s c) = agent c"
  "callbacks (reset_state K s c) = callbacks c"
  "total_steps (reset_state K s c) = total_steps c"
  "episode_steps (reset_state K s c) = episode_steps c"
  "iteration (reset_state K s c) = iteration c"
  "cur_state (reset_state K s c) = fst (mdp_reset K s (mdp c))"
  "mdp (reset_state K s c) = snd (mdp_reset K s (mdp c))"
  by (simp_all add: reset_state_def Let_def)

lemma learn_zero_iterations:
  "snd (learn K 0 how_many n_fit_steps iterate_over render c) = c"
  by (simp add: learn_def)

text \<open>
  Claim C9. \<^verbatim>\<open>reset()\<close> takes the current state from the environment's default reset
  (\<^verbatim>\<open>mdp.reset()\<close> with no argument) and sets \<^verbatim>\<open>_total_steps\<close> and
  \<^verbatim>\<open>_episode_steps\<close> to 0. It leaves the agent, and with it every value the agent has
  learned, the list of callbacks and the attribute \<^verbatim>\<open>iteration\<close> as they are. After
  \<^verbatim>\<open>reset()\<close> and a \<^verbatim>\<open>learn\<close> of zero iterations the agent is still the one from
  before the reset, whatever the other arguments of \<^verbatim>\<open>learn\<close> are.
\<close>

theorem reset_touches_state_and_counters_only:
  "cur_state (reset K c) = fst (mdp_reset K None (mdp c)) \<and>
   mdp (reset K c) = snd (mdp_reset K None (mdp c)) \<and>
   total_steps (reset K c) = 0 \<and>
   episode_steps (reset K c) = 0 \<and>
   agent (reset K c) = agent c \<and>
   callbacks (reset K c) = callbacks c \<and>
   iteration (reset K c) = iteration c \<and>
   agent (snd (learn K 0 how_many n_fit_steps iterate_over render (reset K c))) = agent c"
  by (simp add: reset_def reset_state_frame learn_zero_iterations)

lemmas core_defs = corridor_def core0_def move_episodes_def move_episodes_loop.simps
  step_until_last.simps move_samples_def move_samples_loop.simps step_def reset_state_def Let_def

lemma corridor_episode:
  "fst (move_episodes (corridor 3) 1 False core0) =
     [(0, 0, 1, 1, False, False), (1, 0, 1, 2, False, False), (2, 0, 1, 3, False, True)]"
  by (simp add: core_defs)

lemma corridor_two_episodes:
  "fst (move_episodes (corridor 2) 2 False core0) =
     [(0, 0, 1, 1, False, False), (1, 0, 1, 2, False, True),
      (0, 0, 1, 1, False, False), (1, 0, 1, 2, False, True)]"
  by (simp add: core_defs)

text \<open>
  Claim C4. For \<open>N > 0\<close>, \<^verbatim>\<open>_move_samples(N)\<close> returns a dataset of exactly \<open>N\<close>
  samples, and \<^verbatim>\<open>_move_episodes(N)\<close> returns: its dataset holds exactly \<open>N\<close> samples
  with the flag \<^verbatim>\<open>last\<close> and is the concatenation of \<open>N\<close> episodes, each of which ends
  with its only sample that has the flag.
\<close>

theorem collection_counts:
  assumes "0 < N"
  shows "int (length (fst (move_samples K N render c))) = N \<and>
     int (length (filter sample_last (fst (move_episodes K N render c)))) = N \<and>
     (\<exists>eps. fst (move_episodes K N render c) = concat eps \<and> int (length eps) = N \<and>
        list_all is_episode eps)"
proof -
  have a: "int (length (fst (move_samples K N render c))) = N"
    using assms by (simp add: move_samples_def move_samples_loop_length)
  obtain eps where e: "fst (move_episodes K N render c) = concat eps" "length eps = nat N"
    "list_all is_episode eps"
    using move_episodes_loop_episodes[of K 0 N render "[]" "c\<lparr>episode_steps := 0\<rparr>"]
    by (auto simp: move_episodes_def)
  have "length (filter sample_last (fst (move_episodes K N render c))) = nat N"
    by (simp add: e(1) count_last_concat[OF e(3)] e(2))
  with a e assms show ?thesis by auto
qed

theorem collection_counts_witness:
  "(0::int) < 2 \<and>
   int (length (fst (move_samples (corridor 2) 2 False core0))) = 2 \<and>
   int (length (filter sample_last (fst (move_episodes (corridor 2) 2 False core0)))) = 2 \<and>
   fst (move_episodes (corridor 2) 2 False core0) =
     concat [[(0, 0, 1, 1, False, False), (1, 0, 1, 2, False, True)],
             [(0, 0, 1, 1, False, False), (1, 0, 1, 2, False, True)]] \<and>
   is_episode [(0 :: nat, 0 :: nat, 1, 1, False, False), (1, 0, 1, 2, False, True)]"
proof -
  have h: "(0::int) < 2" by simp
  from collection_counts[OF h, of "corridor 2" False core0]
  show ?thesis by (simp add: corridor_two_episodes is_episode_def)
qed

lemma step_until_last_head:
  "\<exists>rest. fst (step_until_last K render ds c) = ds @ step_sample K c # rest"
proof (cases "sample_last (step_sample K c)")
  case True
  then show ?thesis by (subst step_until_last_unfold) simp
next
  case False
  obtain ep where "fst (step_until_last K render (ds @ [step_sample K c]) (snd (snd (step K ds render c))))
      = (ds @ [step_sample K c]) @ ep"
    using step_until_last_episode by blast
  then show ?thesis using False by (subst step_until_last_unfold) simp
qed

lemma move_episodes_head:
  assumes "0 < N"
  shows "\<exists>rest. fst (move_episodes K N render c) = step_sample K (c\<lparr>episode_steps := 0\<rparr>) # rest"
proof -
  define c0 where "c0 = c\<lparr>episode_steps := 0\<rparr>"
  define r where "r = step_until_last K render [] c0"
  define c' where "c' = (reset_state K None (snd r))\<lparr>episode_steps := 0\<rparr>"
  obtain rest where a: "fst r = step_sample K c0 # rest"
    using step_until_last_head[of K render "[]" c0] by (auto simp: r_def)
  obtain eps where "fst (move_episodes_loop K (0 + 1) N render (fst r) c') = fst r @ concat eps"
    using move_episodes_loop_episodes by blast
  then have "fst (move_episodes K N render c) = step_sample K c0 # rest @ concat eps"
    using assms a unfolding move_episodes_def c0_def[symmetric]
    by (subst move_episodes_loop.simps) (simp add: Let_def r_def[symmetric] c'_def[symmetric])
  then show ?thesis unfolding c0_def by blast
qed

text \<open>
  Claim C10. In the dataset of \<^verbatim>\<open>_move_episodes\<close>, a sample that does not end its
  episode is followed by a sample whose state is its next state, and the first sample
  starts in the current state of the loop. For every step, the state of the sample it
  appends is the current state before the step, and the current state after the step is
  the next state of that sample.
\<close>

theorem episode_chain:
  assumes "ds = fst (move_episodes K N render c)"
    and "Suc i < length ds"
    and "\<not> sample_last (ds ! i)"
  shows "sample_next_state (ds ! i) = sample_state (ds ! Suc i) \<and>
     sample_state (ds ! 0) = cur_state c \<and>
     sample_state (step_sample K c') = cur_state c' \<and>
     cur_state (snd (snd (step K ds' render' c'))) = sample_next_state (step_sample K c')"
proof -
  have "linked [] (c\<lparr>episode_steps := 0\<rparr>)" by (simp add: linked_def joins_def)
  then have "linked ds (snd (move_episodes K N render c))"
    unfolding assms(1) move_episodes_def by (rule move_episodes_loop_linked)
  then have "chained ds" by (simp add: linked_def)
  then have a: "sample_next_state (ds ! i) = sample_state (ds ! Suc i)"
    using assms(2,3) by (rule chained_nth)
  have "0 < N"
  proof (rule ccontr)
    assume "\<not> 0 < N"
    then have "ds = []" unfolding assms(1) move_episodes_def
      by (subst move_episodes_loop.simps) simp
    then show False using assms(2) by simp
  qed
  from move_episodes_head[OF this, of K render c] have "sample_state (ds ! 0) = cur_state c"
    by (auto simp: assms(1) step_sample_state)
  with a show ?thesis by (simp add: step_sample_state step_cur_state)
qed

theorem episode_chain_witness:
  "Suc 0 < length (fst (move_episodes (corridor 3) 1 False core0)) \<and>
   \<not> sample_last (fst (move_episodes (corridor 3) 1 False core0) ! 0) \<and>
   sample_next_state (fst (move_episodes (corridor 3) 1 False core0) ! 0) = 1 \<and>
   sample_state (fst (move_episodes (corridor 3) 1 False core0) ! Suc 0) = 1 \<and>
   sample_state (fst (move_episodes (corridor 3) 1 False core0) ! 0) = cur_state core0"
proof -
  have h1: "Suc 0 < length (fst (move_episodes (corridor 3) 1 False core0))"
    by (simp add: corridor_episode)
  have h2: "\<not> sample_last (fst (move_episodes (corridor 3) 1 False core0) ! 0)"
    by (simp add: corridor_episode)
  from episode_chain[OF refl h1 h2, of core0 "[]" False] h1 h2
  show ?thesis by (simp add: corridor_episode)
qed

lemma step_until_last_frame:
  "callbacks (snd (step_until_last K render ds c)) = callbacks c \<and>
   total_steps (snd (step_until_last K render ds c)) = total_steps c"
proof (induction K render ds c rule: step_until_last.induct)
  case (1 K render dataset c)
  show ?case
  proof (cases "fst (step K dataset render c)")
    case True
    then show ?thesis
      by (subst (1 2) step_until_last.simps) (simp add: Let_def step_frame)
  next
    case False
    with 1[OF refl False] show ?thesis
      by (subst (1 2) step_until_last.simps) (simp add: Let_def step_frame)
  qed
qed

lemma move_episodes_loop_frame:
  "callbacks (snd (move_episodes_loop K i n render ds c)) = callbacks c \<and>
   total_steps (snd (move_episodes_loop K i n render ds c)) = total_steps c"
proof (induction K i n render ds c rule: move_episodes_loop.induct)
  case (1 K i how_many render dataset c)
  show ?case
  proof (cases "i < how_many")
    case False
    then show ?thesis by (subst (1 2) move_episodes_loop.simps) simp
  next
    case True
    define r where "r = step_until_last K render dataset c"
    define c' where "c' = (reset_state K None (snd r))\<lparr>episode_steps := 0\<rparr>"
    have "callbacks c' = callbacks c" "total_steps c' = total_steps c"
      by (simp_all add: c'_def reset_state_frame r_def step_until_last_frame)
    with 1[OF True r_def c'_def] show ?thesis
      using True
      by (subst (1 2) move_episodes_loop.simps) (simp add: Let_def r_def[symmetric] c'_def[symmetric])
  qed
qed

lemma move_samples_loop_frame:
  "callbacks (snd (move_samples_loop K i n render ds c)) = callbacks c \<and>
   total_steps (snd (move_samples_loop K i n render ds c)) = total_steps c"
proof (induction K i n render ds c rule: move_samples_loop.induct)
  case (1 K i how_many render dataset c)
  show ?case
  proof (cases "i < how_many")
    case False
    then show ?thesis by (subst (1 2) move_samples_loop.simps) simp
  next
    case True
    define r where "r = step K dataset render c"
    define c' where "c' = (if fst r then (reset_state K None (snd (snd r)))\<lparr>episode_steps := 0\<rparr>
                   else snd (snd r))"
    have "callbacks c' = callbacks c" "total_steps c' = total_steps c"
      by (simp_all add: c'_def reset_state_frame r_def step_frame)
    with 1[OF True r_def c'_def] show ?thesis
      using True
      by (subst (1 2) move_samples_loop.simps) (simp add: Let_def r_def[symmetric] c'_def[symmetric])
  qed
qed

lemma learn_samples_body_fields:
  "agent (learn_samples_body K how_many n_fit_steps render c it) =
     foldl (\<lambda>w cb. cb (fst (move_samples K how_many render (c\<lparr>iteration := Some it\<rparr>))) w)
       (fit K (fst (move_samples K how_many render (c\<lparr>iteration := Some it\<rparr>))) n_fit_steps
          (agent (snd (move_samples K how_many render (c\<lparr>iteration := Some it\<rparr>)))))
       (callbacks c)"
  "callbacks (learn_samples_body K how_many n_fit_steps render c it) = callbacks c"
  "total_steps (learn_samples_body K how_many n_fit_steps render c it) = total_steps c + 1"
  by (simp_all add: learn_samples_body_def run_callbacks_def Let_def move_samples_def
      move_samples_loop_frame)

lemma learn_episodes_body_fields:
  "agent (learn_episodes_body K how_many n_fit_steps render c it) =
     foldl (\<lambda>w cb. cb (fst (move_episodes K how_many render (c\<lparr>iteration := Some it\<rparr>))) w)
       (fit K (fst (move_episodes K how_many render (c\<lparr>iteration := Some it\<rparr>))) n_fit_steps
          (agent (snd (move_episodes K how_many render (c\<lparr>iteration := Some it\<rparr>)))))
       (callbacks c)"
  "callbacks (learn_episodes_body K how_many n_fit_steps render c it) = callbacks c"
  "total_steps (learn_episodes_body K how_many n_fit_steps render c it) = total_steps c"
  by (simp_all add: learn_episodes_body_def run_callbacks_def Let_def move_episodes_def
      move_episodes_loop_frame)

lemma total_steps_foldl_samples:
  "total_steps (foldl (learn_samples_body K how_many n_fit_steps render) c its) =
     total_steps c + int (length its)"
  by (induction its arbitrary: c) (simp_all add: learn_samples_body_fields)

text \<open>
  Claim C8. In an iteration of \<^verbatim>\<open>learn\<close>, in either mode, the agent-side state after
  the iteration is what the callbacks, called in the order of the list on the collected
  dataset, make of the state that \<^verbatim>\<open>fit\<close> has produced from that same dataset: first
  \<^verbatim>\<open>fit\<close>, then the callbacks. An iteration in samples mode raises
  \<^verbatim>\<open>_total_steps\<close> by one and an iteration in episodes mode leaves it; \<^verbatim>\<open>learn\<close> runs
  the iterations \<open>0, ..., n - 1\<close> in turn, so that in samples mode \<^verbatim>\<open>_total_steps\<close> has
  grown by \<open>n\<close> afterwards.
\<close>

theorem learn_fit_then_callbacks:
  "agent (learn_samples_body K how_many n_fit_steps render c it) =
     foldl (\<lambda>w cb. cb (fst (move_samples K how_many render (c\<lparr>iteration := Some it\<rparr>))) w)
       (fit K (fst (move_samples K how_many render (c\<lparr>iteration := Some it\<rparr>))) n_fit_steps
          (agent (snd (move_samples K how_many render (c\<lparr>iteration := Some it\<rparr>)))))
       (callbacks c) \<and>
   agent (learn_episodes_body K how_many n_fit_steps render c it) =
     foldl (\<lambda>w cb. cb (fst (move_episodes K how_many render (c\<lparr>iteration := Some it\<rparr>))) w)
       (fit K (fst (move_episodes K how_many render (c\<lparr>iteration := Some it\<rparr>))) n_fit_steps
          (agent (snd (move_episodes K how_many render (c\<lparr>iteration := Some it\<rparr>)))))
       (callbacks c) \<and>
   total_steps (learn_samples_body K how_many n_fit_steps render c it) = total_steps c + 1 \<and>
   total_steps (learn_episodes_body K how_many n_fit_steps render c it) = total_steps c \<and>
   learn K n how_many n_fit_steps ''samples'' render c =
     (Inr (), foldl (learn_samples_body K how_many n_fit_steps render) c [0..n - 1]) \<and>
   learn K n how_many n_fit_steps ''episodes'' render c =
     (Inr (), foldl (learn_episodes_body K how_many n_fit_steps render) c [0..n - 1]) \<and>
   (0 \<le> n \<longrightarrow>
      total_steps (snd (learn K n how_many n_fit_steps ''samples'' render c)) = total_steps c + n)"
  by (simp add: learn_samples_body_fields learn_episodes_body_fields learn_def
      total_steps_foldl_samples)

lemmas learn_defs = learn_def learn_samples_body_def learn_episodes_body_def run_callbacks_def
  evaluate_def evaluate_samples_body_def evaluate_episodes_body_def evaluate_initial_body_def
  upto.simps

theorem learn_fit_then_callbacks_witness:
  "(0::int) \<le> 2 \<and>
   agent (snd (learn (corridor 3) 2 2 1 ''samples'' False core0)) =
     [''draw'', ''draw'', ''fit'', ''first'', ''second'',
      ''draw'', ''draw'', ''fit'', ''first'', ''second''] \<and>
   total_steps (snd (learn (corridor 3) 2 2 1 ''samples'' False core0)) = total_steps core0 + 2"
proof -
  have a: "agent (snd (learn (corridor 3) 2 2 1 ''samples'' False core0)) =
     [''draw'', ''draw'', ''fit'', ''first'', ''second'',
      ''draw'', ''draw'', ''fit'', ''first'', ''second'']"
    by (simp add: learn_defs core_defs)
  have h: "(0::int) \<le> 2" by simp
  from learn_fit_then_callbacks[of "corridor 3" 2 1 False core0 0 2] h
  have t: "total_steps (snd (learn (corridor 3) 2 2 1 ''samples'' False core0)) = total_steps core0 + 2"
    by blast
  from h a t show ?thesis by blast
qed

lemma learn_rejects:
  "iterate_over \<noteq> ''samples'' \<Longrightarrow> iterate_over \<noteq> ''episodes'' \<Longrightarrow>
   learn K n how_many n_fit_steps iterate_over render c = (Inl AssertionError, c)"
  by (simp add: learn_def)

lemma evaluate_rejects:
  "iterate_over \<noteq> ''episodes'' \<Longrightarrow>
   evaluate K how_many iterate_over (Some inits) render c = (Inl AssertionError, c)"
  by (simp add: evaluate_def)

text \<open>
  Claim C5 asks that \<^verbatim>\<open>learn\<close> and \<^verbatim>\<open>evaluate\<close> raise before any interaction when
  \<^verbatim>\<open>iterate_over\<close> is neither \<^verbatim>\<open>'samples'\<close> nor \<^verbatim>\<open>'episodes'\<close>. \<^verbatim>\<open>learn\<close> does
  (\<open>learn_rejects\<close>), and so does \<^verbatim>\<open>evaluate\<close> when initial states are given
  (\<open>evaluate_rejects\<close>). Without initial states \<^verbatim>\<open>evaluate\<close> has no such check and
  takes every other string for \<^verbatim>\<open>'samples'\<close>: called with \<^verbatim>\<open>'steps'\<close> on the corridor
  it resets the environment, draws an action, steps and returns the sample.
\<close>

theorem evaluate_accepts_unknown_iterate_over:
  "evaluate (corridor 3) 1 ''steps'' None False core0 =
     (Inr [(0, 0, 1, 1, False, False)],
      core0\<lparr>agent := [''draw''], mdp := 1, cur_state := 1, episode_steps := 1\<rparr>)"
  by (simp add: learn_defs core_defs)

text \<open>
  Claim C3 asks that \<^verbatim>\<open>_episode_steps\<close> is 0 after every reset of the environment,
  also after the one \<^verbatim>\<open>evaluate\<close> does in samples mode. That reset leaves the counter
  as it is. On the corridor with horizon 3, a \<^verbatim>\<open>learn\<close> of one iteration of two samples
  leaves the counter at 2; \<^verbatim>\<open>evaluate\<close> in samples mode then resets the environment
  and its first sample, taken in the start state, already has the flag \<^verbatim>\<open>last\<close>. In
  episodes mode, where \<^verbatim>\<open>_move_episodes\<close> zeroes the counter, the episode from the same
  object has its three samples.
\<close>

theorem evaluate_samples_keeps_episode_steps:
  "episode_steps (snd (learn (corridor 3) 1 2 1 ''samples'' False core0)) = 2 \<and>
   fst (evaluate (corridor 3) 1 ''samples'' None False
          (snd (learn (corridor 3) 1 2 1 ''samples'' False core0))) =
     Inr [(0, 0, 1, 1, False, True)] \<and>
   fst (evaluate (corridor 3) 1 ''episodes'' None False
          (snd (learn (corridor 3) 1 2 1 ''samples'' False core0))) =
     Inr [(0, 0, 1, 1, False, False), (1, 0, 1, 2, False, False), (2, 0, 1, 3, False, True)]"
  by (simp add: learn_defs core_defs)

section \<open>Properties of SARSA(\<open>\<lambda>\<close>)\<close>

lemma in_table_shape:
  "map length t = map length u \<Longrightarrow> in_table t i j = in_table u i j"
proof -
  assume a: "map length t = map length u"
  then have l: "length t = length u" by (rule map_eq_imp_length_eq)
  have "i < length t \<Longrightarrow> length (t ! i) = length (u ! i)"
    using a l by (metis nth_map)
  then show ?thesis using l by (auto simp: in_table_def)
qed

lemma e_update_ok:
  "in_table t s a \<Longrightarrow> e_update kind t s a = Inr (t[s := (t ! s)[a := bump kind (t ! s ! a)]])"
  by (cases kind) (simp_all add: e_update_def table_set_def table_get_def bump_def)

lemma e_update_error:
  "\<not> in_table t s a \<Longrightarrow> e_update kind t s a = Inl IndexError"
  by (cases kind) (simp_all add: e_update_def table_set_def table_get_def)

lemma shape_list_update:
  "map length (t[s := (t ! s)[a := v]]) = map length t"
proof (cases "s < length t")
  case True
  then show ?thesis by (simp add: map_update list_update_same_conv)
next
  case False
  then have "length t \<le> s" by simp
  then show ?thesis by (simp add: list_update_beyond)
qed

lemma nth_list_update2:
  "in_table t i j \<Longrightarrow>
   t[s := (t ! s)[a := v]] ! i ! j = (if i = s \<and> j = a then v else t ! i ! j)"
proof -
  assume b: "in_table t i j"
  show ?thesis
  proof (cases "i = s")
    case True
    then show ?thesis using b by (simp add: in_table_def nth_list_update)
  next
    case False
    then show ?thesis using b by (simp add: in_table_def)
  qed
qed

lemma table_iadd_ok:
  "map length t = map length u \<Longrightarrow> table_iadd t u = Inr (map2 (map2 (\<lambda>x y. x + y)) t u)"
  by (simp add: table_iadd_def)

lemma shape_scalar_mul: "map length (scalar_mul k t) = map length t"
  by (simp add: scalar_mul_def)

lemma shape_table_imul: "map length (table_imul t k) = map length t"
  by (simp add: table_imul_def)

lemma nth_scalar_mul: "in_table t i j \<Longrightarrow> scalar_mul k t ! i ! j = k * t ! i ! j"
  by (simp add: scalar_mul_def in_table_def)

lemma nth_table_imul: "in_table t i j \<Longrightarrow> table_imul t k ! i ! j = t ! i ! j * k"
  by (simp add: table_imul_def in_table_def)

lemma shape_map2:
  "map length t = map length u \<Longrightarrow> map length (map2 (map2 f) t u) = map length t"
proof -
  assume a: "map length t = map length u"
  then have l: "length t = length u" by (rule map_eq_imp_length_eq)
  have "\<And>i. i < length t \<Longrightarrow> length (t ! i) = length (u ! i)"
    using a l by (metis nth_map)
  then show ?thesis using l by (simp add: list_eq_iff_nth_eq)
qed

lemma nth_map2_map2:
  fixes t u :: table
  shows "map length t = map length u \<Longrightarrow> in_table t i j \<Longrightarrow>
   map2 (map2 f) t u ! i ! j = f (t ! i ! j) (u ! i ! j)"
proof -
  assume a: "map length t = map length u" and b: "in_table t i j"
  then have "in_table u i j" using in_table_shape by blast
  then show ?thesis using b by (simp add: in_table_def)
qed

text \<open>The result of a call whose indices are inside the table.\<close>

lemma update_result:
  assumes sa: "in_table (Q_table ag) s a"
    and shape: "map length (e_table ag) = map length (Q_table ag)"
    and nxt: "absorbing \<or> in_table (Q_table ag) s' (fst (td_draw_action T ag s'))"
  shows "update T s a r s' absorbing ag =
     (let d = td_draw_action T ag s';
          q_next = (if absorbing then 0 else Q_table ag ! s' ! fst d);
          delta = r + mdp_gamma ag * q_next - Q_table ag ! s ! a;
          e1 = (e_table ag)[s := (e_table ag ! s)[a := bump (trace ag) (e_table ag ! s ! a)]];
          al = td_alpha T (ag\<lparr>next_action := Some (fst d), ext := snd d, e_table := e1\<rparr>) s a
      in Inr (ag\<lparr>next_action := Some (fst d), ext := snd al,
                 Q_table := map2 (map2 (\<lambda>x y. x + y)) (Q_table ag) (scalar_mul (fst al * delta) e1),
                 e_table := table_imul e1 (mdp_gamma ag * lambda_coeff ag)\<rparr>))"
proof -
  have esa: "in_table (e_table ag) s a" using sa shape in_table_shape by blast
  show ?thesis
    using sa nxt
    by (auto simp add: update_def table_get_def Let_def e_update_ok[OF esa] table_iadd_ok
        shape_scalar_mul shape_list_update shape)
qed

lemma list_all_update: "list_all P xs \<Longrightarrow> P y \<Longrightarrow> list_all P (xs[i := y])"
  by (induction xs arbitrary: i) (auto split: nat.splits)

lemma trace_bounded_reset: "trace_bounded (e_reset t)"
  by (simp add: trace_bounded_def e_reset_def list_all_iff)

lemma shape_e_reset: "map length (e_reset t) = map length t"
  by (simp add: e_reset_def)

lemma trace_bounded_replacing:
  assumes "trace_bounded t" "e_update Replacing t s a = Inr e1"
  shows "trace_bounded e1"
proof -
  have i: "in_table t s a" using assms(2) e_update_error[of t s a Replacing] by (cases "in_table t s a") auto
  then have "e1 = t[s := (t ! s)[a := 1]]"
    using assms(2) by (simp add: e_update_ok bump_def)
  moreover have "list_all (\<lambda>x. 0 \<le> x \<and> x \<le> 1) (t ! s)"
    using assms(1) i by (simp add: trace_bounded_def in_table_def list_all_length)
  ultimately show ?thesis
    using assms(1) by (simp add: trace_bounded_def list_all_update)
qed

lemma trace_bounded_decay:
  assumes "trace_bounded t" "0 \<le> k" "k \<le> 1"
  shows "trace_bounded (table_imul t k)"
proof -
  have "0 \<le> x * k \<and> x * k \<le> 1" if "0 \<le> x \<and> x \<le> 1" for x :: real
    using that assms(2,3) by (simp add: mult_le_one)
  then show ?thesis
    using assms(1) by (auto simp: trace_bounded_def table_imul_def list_all_iff)
qed

lemma update_fields:
  assumes "update T s a r s' ab ag = Inr ag'"
  shows "trace ag' = trace ag \<and> mdp_gamma ag' = mdp_gamma ag \<and> lambda_coeff ag' = lambda_coeff ag
     \<and> (\<exists>e1. e_update (trace ag) (e_table ag) s a = Inr e1 \<and>
            e_table ag' = table_imul e1 (mdp_gamma ag * lambda_coeff ag))"
  using assms
  by (auto simp: update_def Let_def split: sum.splits if_splits)

lemma episode_start_fields:
  "trace (episode_start T ag) = trace ag" "mdp_gamma (episode_start T ag) = mdp_gamma ag"
  "lambda_coeff (episode_start T ag) = lambda_coeff ag"
  "e_table (episode_start T ag) = e_reset (e_table ag)"
  "Q_table (episode_start T ag) = Q_table ag"
  by (simp_all add: episode_start_def Let_def)

lemma update_bounded:
  assumes "update T s a r s' ab ag = Inr ag'" "coeffs_ok ag" "trace_bounded (e_table ag)"
  shows "coeffs_ok ag' \<and> trace_bounded (e_table ag')"
proof -
  from update_fields[OF assms(1)] obtain e1 where
    f: "trace ag' = trace ag" "mdp_gamma ag' = mdp_gamma ag" "lambda_coeff ag' = lambda_coeff ag"
    and e1: "e_update (trace ag) (e_table ag) s a = Inr e1"
    and e': "e_table ag' = table_imul e1 (mdp_gamma ag * lambda_coeff ag)"
    by blast
  have "trace_bounded e1"
    using trace_bounded_replacing[OF assms(3)] e1 assms(2) by (simp add: coeffs_ok_def)
  moreover have "0 \<le> mdp_gamma ag * lambda_coeff ag" "mdp_gamma ag * lambda_coeff ag \<le> 1"
    using assms(2) by (simp_all add: coeffs_ok_def mult_le_one)
  ultimately have "trace_bounded (e_table ag')"
    unfolding e' by (rule trace_bounded_decay)
  then show ?thesis using f assms(2) by (simp add: coeffs_ok_def)
qed

lemma run_bounded:
  "run T cs ag = Inr ag' \<Longrightarrow> coeffs_ok ag \<Longrightarrow> trace_bounded (e_table ag)
     \<Longrightarrow> coeffs_ok ag' \<and> trace_bounded (e_table ag')"
proof (induction T cs ag rule: run.induct)
  case (1 T ag)
  then show ?case by simp
next
  case (2 T cs ag)
  have "coeffs_ok (episode_start T ag)"
    using 2(3) by (simp add: coeffs_ok_def episode_start_fields)
  moreover have "trace_bounded (e_table (episode_start T ag))"
    by (simp add: episode_start_fields trace_bounded_reset)
  ultimately show ?case using 2(1) 2(2) by simp
next
  case (3 T s a r s' ab cs ag)
  from 3(2) obtain ag1 where u: "update T s a r s' ab ag = Inr ag1" and r: "run T cs ag1 = Inr ag'"
    by (auto split: sum.splits)
  from update_bounded[OF u 3(3) 3(4)] 3(1)[OF u r] show ?case by blast
qed

lemma update_pointwise:
  assumes sa: "in_table (Q_table ag) s a"
    and shape: "map length (e_table ag) = map length (Q_table ag)"
    and nxt: "absorbing \<or> in_table (Q_table ag) s' (fst (td_draw_action T ag s'))"
  shows "\<exists>ag' e1.
     update T s a r s' absorbing ag = Inr ag' \<and>
     e_update (trace ag) (e_table ag) s a = Inr e1 \<and>
     (let na = fst (td_draw_action T ag s');
          q_current = Q_table ag ! s ! a;
          q_next = (if absorbing then 0 else Q_table ag ! s' ! na);
          delta = r + mdp_gamma ag * q_next - q_current;
          al = fst (td_alpha T (ag\<lparr>next_action := Some na, ext := snd (td_draw_action T ag s'),
                                     e_table := e1\<rparr>) s a)
      in next_action ag' = Some na \<and>
         map length (Q_table ag') = map length (Q_table ag) \<and>
         map length (e_table ag') = map length (Q_table ag) \<and>
         (\<forall>i j. in_table (Q_table ag) i j \<longrightarrow>
            Q_table ag' ! i ! j = Q_table ag ! i ! j + al * delta * e1 ! i ! j \<and>
            e_table ag' ! i ! j = e1 ! i ! j * (mdp_gamma ag * lambda_coeff ag)))"
proof -
  define e1 where "e1 = (e_table ag)[s := (e_table ag ! s)[a := bump (trace ag) (e_table ag ! s ! a)]]"
  have esa: "in_table (e_table ag) s a" using sa shape in_table_shape by blast
  have eu: "e_update (trace ag) (e_table ag) s a = Inr e1"
    by (simp add: e_update_ok[OF esa] e1_def)
  have sh1: "map length e1 = map length (Q_table ag)"
    by (simp add: e1_def shape_list_update shape)
  have sh2: "map length (Q_table ag) = map length (scalar_mul k e1)" for k
    by (simp add: shape_scalar_mul sh1)
  have in1: "in_table e1 i j" if "in_table (Q_table ag) i j" for i j
    using that sh1 in_table_shape by blast
  define d where "d = td_draw_action T ag s'"
  define al where "al = td_alpha T (ag\<lparr>next_action := Some (fst d), ext := snd d, e_table := e1\<rparr>) s a"
  define delta where
    "delta = r + mdp_gamma ag * (if absorbing then 0 else Q_table ag ! s' ! fst d) - Q_table ag ! s ! a"
  define agR where
    "agR = ag\<lparr>next_action := Some (fst d), ext := snd al,
                Q_table := map2 (map2 (\<lambda>x y. x + y)) (Q_table ag) (scalar_mul (fst al * delta) e1),
                e_table := table_imul e1 (mdp_gamma ag * lambda_coeff ag)\<rparr>"
  have u: "update T s a r s' absorbing ag = Inr agR"
    by (subst update_result[OF sa shape nxt])
       (simp add: Let_def agR_def al_def d_def delta_def e1_def)
  have q: "Q_table agR ! i ! j = Q_table ag ! i ! j + fst al * delta * e1 ! i ! j"
    if "in_table (Q_table ag) i j" for i j
    using that by (simp add: agR_def nth_map2_map2[OF sh2] nth_scalar_mul in1)
  have e: "e_table agR ! i ! j = e1 ! i ! j * (mdp_gamma ag * lambda_coeff ag)"
    if "in_table (Q_table ag) i j" for i j
    using that by (simp add: agR_def nth_table_imul in1)
  have "Q_table agR = map2 (map2 (\<lambda>x y. x + y)) (Q_table ag) (scalar_mul (fst al * delta) e1)"
    by (simp add: agR_def)
  then have s1: "map length (Q_table agR) = map length (Q_table ag)"
    by (simp only: shape_map2[OF sh2])
  have s2: "map length (e_table agR) = map length (Q_table ag)"
    by (simp add: agR_def shape_table_imul sh1)
  have n: "next_action agR = Some (fst d)" by (simp add: agR_def)
  show ?thesis
    apply (rule exI[of _ agR], rule exI[of _ e1])
    using u eu q e s1 s2 n
    apply (simp add: Let_def al_def d_def delta_def)
    done
qed

text \<open>
  Claim C1. A call of \<^verbatim>\<open>_update\<close> with \<open>(s, a)\<close> inside the table, a trace of the
  shape of the table and, unless \<open>absorbing\<close>, the pair of \<open>s'\<close> and the drawn action
  inside the table, returns. Its TD error is \<open>r + gamma * q_next - q_current\<close> with
  \<open>q_current\<close> the entry at \<open>(s, a)\<close> of the table before the call and \<open>q_next\<close> the
  entry at \<open>s'\<close> and the drawn action, or 0 when \<open>absorbing\<close>: then the table is not
  read at \<open>s'\<close>, and the call returns even if \<open>s'\<close> is outside the table. Every entry
  of the table grows by \<open>alpha(s, a) * delta\<close> times the entry of the trace \<open>e1\<close> that
  \<^verbatim>\<open>e.update(s, a)\<close> has produced, and the trace left behind is \<open>e1\<close> times
  \<open>gamma * lambda\<close>, entry by entry. This holds for both variants of the trace.
\<close>

theorem update_td_error:
  assumes "in_table (Q_table ag) s a"
    and "map length (e_table ag) = map length (Q_table ag)"
    and "absorbing \<or> in_table (Q_table ag) s' (fst (td_draw_action T ag s'))"
  shows "\<exists>ag' e1.
     update T s a r s' absorbing ag = Inr ag' \<and>
     e_update (trace ag) (e_table ag) s a = Inr e1 \<and>
     (let na = fst (td_draw_action T ag s');
          q_current = Q_table ag ! s ! a;
          q_next = (if absorbing then 0 else Q_table ag ! s' ! na);
          delta = r + mdp_gamma ag * q_next - q_current;
          al = fst (td_alpha T (ag\<lparr>next_action := Some na, ext := snd (td_draw_action T ag s'),
                                     e_table := e1\<rparr>) s a)
      in next_action ag' = Some na \<and>
         map length (Q_table ag') = map length (Q_table ag) \<and>
         map length (e_table ag') = map length (Q_table ag) \<and>
         (\<forall>i j. in_table (Q_table ag) i j \<longrightarrow>
            Q_table ag' ! i ! j = Q_table ag ! i ! j + al * delta * e1 ! i ! j \<and>
            e_table ag' ! i ! j = e1 ! i ! j * (mdp_gamma ag * lambda_coeff ag)))"
  using assms by (rule update_pointwise)

theorem update_td_error_witness:
  "in_table (Q_table example_agent) 0 1 \<and>
   map length (e_table example_agent) = map length (Q_table example_agent) \<and>
   in_table (Q_table example_agent) 1 (fst (td_draw_action example_td example_agent 1)) \<and>
   (\<exists>ag'. update example_td 0 1 1 1 False example_agent = Inr ag' \<and>
      Q_table ag' ! 0 ! 1 = 2 + 1 / 2 * (1 + 1 / 2 * 3 - 2) * 1 \<and>
      e_table ag' ! 0 ! 1 = 1 * (1 / 2 * (1 / 2)))"
proof -
  have h1: "in_table (Q_table example_agent) 0 1" by (simp add: ex_defs)
  have h2: "map length (e_table example_agent) = map length (Q_table example_agent)"
    by (simp add: ex_defs eval_nat_numeral)
  have h3: "in_table (Q_table example_agent) 1 (fst (td_draw_action example_td example_agent 1))"
    by (simp add: ex_defs)
  have h3': "False \<or> in_table (Q_table example_agent) 1 (fst (td_draw_action example_td example_agent 1))"
    using h3 by simp
  from update_td_error[OF h1 h2 h3', of 1] obtain ag' e1 where
    u: "update example_td 0 1 1 1 False example_agent = Inr ag'"
    and eu: "e_update (trace example_agent) (e_table example_agent) 0 1 = Inr e1"
    and q: "\<And>i j. in_table (Q_table example_agent) i j \<Longrightarrow>
       Q_table ag' ! i ! j = Q_table example_agent ! i ! j +
         fst (td_alpha example_td (example_agent\<lparr>next_action := Some (fst (td_draw_action example_td example_agent 1)),
            ext := snd (td_draw_action example_td example_agent 1), e_table := e1\<rparr>) 0 1)
         * (1 + mdp_gamma example_agent * Q_table example_agent ! 1 ! fst (td_draw_action example_td example_agent 1)
              - Q_table example_agent ! 0 ! 1) * e1 ! i ! j \<and>
       e_table ag' ! i ! j = e1 ! i ! j * (mdp_gamma example_agent * lambda_coeff example_agent)"
    by (auto simp: Let_def)
  have e1: "e1 = [[0, 1], [0, 0], [0, 0], [0, 0]]"
    using eu by (simp add: ex_defs eval_nat_numeral)
  from q[OF h1] have "Q_table ag' ! 0 ! 1 = 2 + 1 / 2 * (1 + 1 / 2 * 3 - 2) * 1 \<and>
      e_table ag' ! 0 ! 1 = 1 * (1 / 2 * (1 / 2))"
    by (simp add: e1) (simp add: ex_defs)
  with h1 h2 h3 u show ?thesis by blast
qed

text \<open>
  Claim C7. Take an agent with the replacing trace and \<open>gamma\<close> and \<open>lambda\<close> in
  \<open>[0, 1]\<close>, and any sequence of calls of \<^verbatim>\<open>episode_start\<close> and \<^verbatim>\<open>_update\<close> that
  begins with \<^verbatim>\<open>episode_start\<close> and raises nothing. Whatever pair the next
  \<^verbatim>\<open>e.update\<close> visits, every entry of the trace right after it lies in \<open>[0, 1]\<close>.
\<close>

theorem replacing_trace_bounded:
  assumes "0 \<le> mdp_gamma ag0" "mdp_gamma ag0 \<le> 1" "0 \<le> lambda_coeff ag0" "lambda_coeff ag0 \<le> 1"
    and "trace ag0 = Replacing"
    and "run T (EpisodeStart # cs) ag0 = Inr ag"
    and "e_update (trace ag) (e_table ag) s a = Inr e1"
  shows "trace_bounded e1"
proof -
  have c: "coeffs_ok (episode_start T ag0)"
    using assms(1-5) by (simp add: coeffs_ok_def episode_start_fields)
  have b: "trace_bounded (e_table (episode_start T ag0))"
    by (simp add: episode_start_fields trace_bounded_reset)
  have "run T cs (episode_start T ag0) = Inr ag" using assms(6) by simp
  from run_bounded[OF this c b] have "coeffs_ok ag" "trace_bounded (e_table ag)" by simp_all
  then show ?thesis using assms(7) trace_bounded_replacing by (simp add: coeffs_ok_def)
qed

theorem replacing_trace_bounded_witness:
  "0 \<le> mdp_gamma example_agent \<and> mdp_gamma example_agent \<le> 1 \<and>
   0 \<le> lambda_coeff example_agent \<and> lambda_coeff example_agent \<le> 1 \<and>
   trace example_agent = Replacing \<and>
   (\<exists>ag. run example_td [EpisodeStart, Update 0 1 1 1 False] example_agent = Inr ag \<and>
      e_update (trace ag) (e_table ag) 0 0 = Inr [[1, 1 / 4], [0, 0], [0, 0], [0, 0]]) \<and>
   trace_bounded [[1, 1 / 4], [0, 0], [0, 0], [0, 0]]"
proof -
  have h: "0 \<le> mdp_gamma example_agent" "mdp_gamma example_agent \<le> 1"
    "0 \<le> lambda_coeff example_agent" "lambda_coeff example_agent \<le> 1"
    "trace example_agent = Replacing"
    by (simp_all add: ex_defs)
  obtain ag where r: "run example_td [EpisodeStart, Update 0 1 1 1 False] example_agent = Inr ag"
    and e: "e_update (trace ag) (e_table ag) 0 0 = Inr [[1, 1 / 4], [0, 0], [0, 0], [0, 0]]"
    by (simp add: ex_defs eval_nat_numeral)
  from replacing_trace_bounded[OF h r e] h r e show ?thesis by blast
qed

text \<open>
  Claim C6. Let \<open>lambda = 0\<close>, with either variant of the trace, and let one transition
  \<open>(s, a, r, s', absorbing = False)\<close> be processed right after \<^verbatim>\<open>episode_start\<close>, its
  indices inside the table. The trace after \<^verbatim>\<open>e.update(s, a)\<close> is 1 at \<open>(s, a)\<close> and
  0 elsewhere; the table changes at \<open>(s, a)\<close> only, by
  \<open>alpha(s, a) * (r + gamma * Q[s', a''] - Q[s, a])\<close> with \<open>a''\<close> the action drawn at
  \<open>s'\<close>; and the trace the call leaves behind is 0 everywhere.
\<close>

theorem lambda_zero_one_step:
  assumes lam: "lambda_coeff ag0 = 0"
    and start: "ag = episode_start T ag0"
    and shape: "map length (e_table ag0) = map length (Q_table ag0)"
    and sa: "in_table (Q_table ag) s a"
    and nxt: "in_table (Q_table ag) s' (fst (td_draw_action T ag s'))"
  shows "\<exists>ag' e1.
     update T s a r s' False ag = Inr ag' \<and>
     e_update (trace ag) (e_table ag) s a = Inr e1 \<and>
     (let na = fst (td_draw_action T ag s');
          al = fst (td_alpha T (ag\<lparr>next_action := Some na, ext := snd (td_draw_action T ag s'),
                                     e_table := e1\<rparr>) s a)
      in \<forall>i j. in_table (Q_table ag) i j \<longrightarrow>
           e1 ! i ! j = (if i = s \<and> j = a then 1 else 0) \<and>
           Q_table ag' ! i ! j =
             (if i = s \<and> j = a
              then Q_table ag ! s ! a +
                   al * (r + mdp_gamma ag * Q_table ag ! s' ! na - Q_table ag ! s ! a)
              else Q_table ag ! i ! j) \<and>
           e_table ag' ! i ! j = 0)"
proof -
  have f: "lambda_coeff ag = 0" "e_table ag = e_reset (e_table ag0)"
    "Q_table ag = Q_table ag0"
    by (simp_all add: start episode_start_fields lam)
  have shape': "map length (e_table ag) = map length (Q_table ag)"
    by (simp add: f shape_e_reset shape)
  have nxt': "False \<or> in_table (Q_table ag) s' (fst (td_draw_action T ag s'))"
    using nxt by simp
  from update_pointwise[OF sa shape' nxt', of r] obtain ag' e1 where
    u: "update T s a r s' False ag = Inr ag'"
    and eu: "e_update (trace ag) (e_table ag) s a = Inr e1"
    and q: "\<And>i j. in_table (Q_table ag) i j \<Longrightarrow>
       Q_table ag' ! i ! j = Q_table ag ! i ! j +
         fst (td_alpha T (ag\<lparr>next_action := Some (fst (td_draw_action T ag s')),
            ext := snd (td_draw_action T ag s'), e_table := e1\<rparr>) s a)
         * (r + mdp_gamma ag * Q_table ag ! s' ! fst (td_draw_action T ag s')
              - Q_table ag ! s ! a) * e1 ! i ! j \<and>
       e_table ag' ! i ! j = e1 ! i ! j * (mdp_gamma ag * lambda_coeff ag)"
    by (auto simp: Let_def)
  have esa: "in_table (e_table ag) s a" using sa shape' in_table_shape by blast
  have z: "e_table ag ! i ! j = 0" if "in_table (Q_table ag) i j" for i j
  proof -
    have "in_table (e_table ag0) i j" using that shape f(3) in_table_shape by metis
    then show ?thesis by (simp add: f(2) e_reset_def in_table_def)
  qed
  have "bump (trace ag) (e_table ag ! s ! a) = 1"
    by (cases "trace ag") (simp_all add: bump_def z[OF sa])
  then have e1: "e1 = (e_table ag)[s := (e_table ag ! s)[a := 1]]"
    using eu by (simp add: e_update_ok[OF esa])
  have oh: "e1 ! i ! j = (if i = s \<and> j = a then 1 else 0)" if "in_table (Q_table ag) i j" for i j
  proof -
    have "in_table (e_table ag) i j" using that shape' in_table_shape by blast
    then show ?thesis using z[OF that] by (simp add: e1 nth_list_update2)
  qed
  show ?thesis
    apply (rule exI[of _ ag'], rule exI[of _ e1])
    using u eu q oh
    apply (simp add: Let_def f(1))
    done
qed

theorem lambda_zero_one_step_witness:
  "lambda_coeff example_agent_acc = 0 \<and>
   map length (e_table example_agent_acc) = map length (Q_table example_agent_acc) \<and>
   in_table (Q_table example_agent0) 0 1 \<and>
   in_table (Q_table example_agent0) 1 (fst (td_draw_action example_td example_agent0 1)) \<and>
   (\<exists>ag' e1. update example_td 0 1 1 1 False example_agent0 = Inr ag' \<and>
      e_update (trace example_agent0) (e_table example_agent0) 0 1 = Inr e1 \<and>
      e1 ! 0 ! 1 = 1 \<and> e1 ! 1 ! 0 = 0 \<and>
      Q_table ag' ! 0 ! 1 = 2 + 1 / 2 * (1 + 1 / 2 * 3 - 2) \<and>
      Q_table ag' ! 1 ! 0 = 3 \<and>
      e_table ag' ! 0 ! 1 = 0)"
proof -
  have h1: "lambda_coeff example_agent_acc = 0" by (simp add: example_agent_acc_def)
  have h3: "map length (e_table example_agent_acc) = map length (Q_table example_agent_acc)"
    by (simp add: example_agent_acc_def ex_defs)
  have h4: "in_table (Q_table example_agent0) 0 1"
    by (simp add: example_agent0_def example_agent_acc_def ex_defs)
  have h5: "in_table (Q_table example_agent0) 1 (fst (td_draw_action example_td example_agent0 1))"
    by (simp add: example_agent0_def example_agent_acc_def ex_defs)
  have h6: "in_table (Q_table example_agent0) 1 0"
    by (simp add: example_agent0_def example_agent_acc_def ex_defs)
  from lambda_zero_one_step[OF h1 example_agent0_def h3 h4 h5, of 1] obtain ag' e1 where
    u: "update example_td 0 1 1 1 False example_agent0 = Inr ag'"
    and eu: "e_update (trace example_agent0) (e_table example_agent0) 0 1 = Inr e1"
    and q: "\<And>i j. in_table (Q_table example_agent0) i j \<Longrightarrow>
           e1 ! i ! j = (if i = 0 \<and> j = 1 then 1 else 0) \<and>
           Q_table ag' ! i ! j =
             (if i = 0 \<and> j = 1
              then Q_table example_agent0 ! 0 ! 1 +
                   fst (td_alpha example_td (example_agent0\<lparr>next_action := Some (fst (td_draw_action example_td example_agent0 1)),
                     ext := snd (td_draw_action example_td example_agent0 1), e_table := e1\<rparr>) 0 1) *
                    (1 + mdp_gamma example_agent0 * Q_table example_agent0 ! 1 ! fst (td_draw_action example_td example_agent0 1)
                       - Q_table example_agent0 ! 0 ! 1)
              else Q_table example_agent0 ! i ! j) \<and>
           e_table ag' ! i ! j = 0"
    by (auto simp: Let_def)
  from q[OF h4] have a: "e1 ! 0 ! 1 = 1" "Q_table ag' ! 0 ! 1 = 2 + 1 / 2 * (1 + 1 / 2 * 3 - 2)"
    "e_table ag' ! 0 ! 1 = 0"
    by (simp_all add: example_agent0_def example_agent_acc_def ex_defs)
  from q[OF h6] have b: "e1 ! 1 ! 0 = 0" "Q_table ag' ! 1 ! 0 = 3"
    by (simp_all add: example_agent0_def example_agent_acc_def ex_defs)
  from h1 h3 h4 h5 u eu a b show ?thesis by blast
qed

section \<open>The flags \<^verbatim>\<open>absorbing\<close> and \<^verbatim>\<open>last\<close>\<close>

text \<open>
  Claim C2. A step raises \<^verbatim>\<open>_episode_steps\<close> by one, appends one sample and returns its
  flag \<^verbatim>\<open>last\<close>, which is \<^verbatim>\<open>absorbing\<close> or the raised counter having reached the
  horizon. With horizon 3 and an environment that never absorbs, one collected episode
  has three samples with flags \<open>[False, False, True]\<close>. The update of a sample that
  ends its episode by the horizon only (\<^verbatim>\<open>last\<close> set, \<^verbatim>\<open>absorbing\<close> not) still
  bootstraps from the table at the next state: \<^verbatim>\<open>_update\<close> never sees \<^verbatim>\<open>last\<close>.
\<close>

theorem step_last_flag:
  assumes h: "mdp_horizon K3 = 3"
    and na: "\<forall>a env. \<not> snd (snd (fst (mdp_step K3 a env)))"
    and trunc: "sample_last smp" "\<not> sample_absorbing smp"
    and sa: "in_table (Q_table ag) (sample_state smp) (sample_action smp)"
    and shape: "map length (e_table ag) = map length (Q_table ag)"
    and nxt: "in_table (Q_table ag) (sample_next_state smp)
                (fst (td_draw_action T ag (sample_next_state smp)))"
  shows "episode_steps (snd (snd (step K ds render c))) = episode_steps c + 1 \<and>
     fst (snd (step K ds render c)) = ds @ [step_sample K c] \<and>
     sample_last (step_sample K c) = fst (step K ds render c) \<and>
     fst (step K ds render c) =
       (sample_absorbing (step_sample K c) \<or>
        mdp_horizon K \<le> episode_steps (snd (snd (step K ds render c)))) \<and>
     map sample_last (fst (move_episodes K3 1 render3 c3)) = [False, False, True] \<and>
     (\<exists>ag' e1.
        update T (sample_state smp) (sample_action smp) (sample_reward smp)
          (sample_next_state smp) (sample_absorbing smp) ag = Inr ag' \<and>
        e_update (trace ag) (e_table ag) (sample_state smp) (sample_action smp) = Inr e1 \<and>
        (let na = fst (td_draw_action T ag (sample_next_state smp));
             al = fst (td_alpha T (ag\<lparr>next_action := Some na,
                    ext := snd (td_draw_action T ag (sample_next_state smp)),
                    e_table := e1\<rparr>) (sample_state smp) (sample_action smp))
         in \<forall>i j. in_table (Q_table ag) i j \<longrightarrow>
              Q_table ag' ! i ! j =
                Q_table ag ! i ! j +
                al * (sample_reward smp + mdp_gamma ag * Q_table ag ! sample_next_state smp ! na
                        - Q_table ag ! sample_state smp ! sample_action smp) * e1 ! i ! j))"
proof -
  have a: "episode_steps (snd (snd (step K ds render c))) = episode_steps c + 1"
    by (rule step_episode_steps)
  have b: "fst (snd (step K ds render c)) = ds @ [step_sample K c]"
    by (rule step_dataset)
  have c: "sample_last (step_sample K c) = fst (step K ds render c)"
    by (simp add: step_fst)
  have d: "fst (step K ds render c) =
       (sample_absorbing (step_sample K c) \<or>
        mdp_horizon K \<le> episode_steps (snd (snd (step K ds render c))))"
    by (simp add: step_fst step_sample_last step_episode_steps)
  have e: "map sample_last (fst (move_episodes K3 1 render3 c3)) = [False, False, True]"
    using h na by (simp add: horizon_three_episode)
  have nxt': "sample_absorbing smp \<or> in_table (Q_table ag) (sample_next_state smp)
                (fst (td_draw_action T ag (sample_next_state smp)))"
    using nxt by simp
  from update_pointwise[OF sa shape nxt', of "sample_reward smp"] obtain ag' e1 where
    u: "update T (sample_state smp) (sample_action smp) (sample_reward smp)
          (sample_next_state smp) (sample_absorbing smp) ag = Inr ag'"
      "e_update (trace ag) (e_table ag) (sample_state smp) (sample_action smp) = Inr e1"
    and q: "\<And>i j. in_table (Q_table ag) i j \<Longrightarrow>
      Q_table ag' ! i ! j =
                Q_table ag ! i ! j +
                fst (td_alpha T (ag\<lparr>next_action := Some (fst (td_draw_action T ag (sample_next_state smp))),
                    ext := snd (td_draw_action T ag (sample_next_state smp)),
                    e_table := e1\<rparr>) (sample_state smp) (sample_action smp)) *
                 (sample_reward smp + mdp_gamma ag * Q_table ag ! sample_next_state smp ! fst (td_draw_action T ag (sample_next_state smp))
                        - Q_table ag ! sample_state smp ! sample_action smp) * e1 ! i ! j"
    using trunc(2) by (auto simp: Let_def)
  have f: "\<exists>ag' e1.
        update T (sample_state smp) (sample_action smp) (sample_reward smp)
          (sample_next_state smp) (sample_absorbing smp) ag = Inr ag' \<and>
        e_update (trace ag) (e_table ag) (sample_state smp) (sample_action smp) = Inr e1 \<and>
        (let na = fst (td_draw_action T ag (sample_next_state smp));
             al = fst (td_alpha T (ag\<lparr>next_action := Some na,
                    ext := snd (td_draw_action T ag (sample_next_state smp)),
                    e_table := e1\<rparr>) (sample_state smp) (sample_action smp))
         in \<forall>i j. in_table (Q_table ag) i j \<longrightarrow>
              Q_table ag' ! i ! j =
                Q_table ag ! i ! j +
                al * (sample_reward smp + mdp_gamma ag * Q_table ag ! sample_next_state smp ! na
                        - Q_table ag ! sample_state smp ! sample_action smp) * e1 ! i ! j)"
    apply (rule exI[of _ ag'], rule exI[of _ e1])
    using u q apply (simp add: Let_def)
    done
  from a b c d e f show ?thesis by blast
qed

theorem step_last_flag_witness:
  "mdp_horizon (corridor 3) = 3 \<and>
   (\<forall>a env. \<not> snd (snd (fst (mdp_step (corridor 3) a env)))) \<and>
   last (fst (move_episodes (corridor 3) 1 False core0)) = (2, 0, 1, 3, False, True) \<and>
   in_table (Q_table example_agent) 2 0 \<and>
   map length (e_table example_agent) = map length (Q_table example_agent) \<and>
   in_table (Q_table example_agent) 3 (fst (td_draw_action example_td example_agent 3)) \<and>
   map sample_last (fst (move_episodes (corridor 3) 1 False core0)) = [False, False, True] \<and>
   fst (step (corridor 3) [] False (core0\<lparr>episode_steps := 2\<rparr>)) \<and>
   (\<exists>ag'. update example_td 2 0 1 3 False example_agent = Inr ag' \<and>
      Q_table ag' ! 2 ! 0 = 5 + 1 / 2 * (1 + 1 / 2 * 7 - 5) * 1)"
proof -
  define smp :: "(nat, nat) sample" where "smp = (2, 0, 1, 3, False, True)"
  have h1: "mdp_horizon (corridor 3) = 3" by (simp add: corridor_def)
  have h2: "\<forall>a env. \<not> snd (snd (fst (mdp_step (corridor 3) a env)))" by (simp add: corridor_def)
  have h3: "sample_last smp" "\<not> sample_absorbing smp" by (simp_all add: smp_def)
  have h4: "in_table (Q_table example_agent) (sample_state smp) (sample_action smp)"
    by (simp add: smp_def ex_defs)
  have h5: "map length (e_table example_agent) = map length (Q_table example_agent)"
    by (simp add: ex_defs eval_nat_numeral)
  have h6: "in_table (Q_table example_agent) (sample_next_state smp)
                (fst (td_draw_action example_td example_agent (sample_next_state smp)))"
    by (simp add: smp_def ex_defs)
  have l: "last (fst (move_episodes (corridor 3) 1 False core0)) = (2, 0, 1, 3, False, True)"
    by (simp add: corridor_episode)
  note t = step_last_flag[OF h1 h2 h3 h4 h5 h6, of "corridor 3" "[]" False "core0\<lparr>episode_steps := 2\<rparr>" False core0]
  from t have s: "map sample_last (fst (move_episodes (corridor 3) 1 False core0)) = [False, False, True]"
    by blast
  from t have f: "fst (step (corridor 3) [] False (core0\<lparr>episode_steps := 2\<rparr>))"
    by (simp add: corridor_def)
  from t obtain ag' e1 where
    u: "update example_td 2 0 1 3 False example_agent = Inr ag'"
    and eu: "e_update (trace example_agent) (e_table example_agent) 2 0 = Inr e1"
    and q: "\<And>i j. in_table (Q_table example_agent) i j \<Longrightarrow>
       Q_table ag' ! i ! j = Q_table example_agent ! i ! j +
         fst (td_alpha example_td (example_agent\<lparr>next_action := Some (fst (td_draw_action example_td example_agent 3)),
            ext := snd (td_draw_action example_td example_agent 3), e_table := e1\<rparr>) 2 0)
         * (1 + mdp_gamma example_agent * Q_table example_agent ! 3 ! fst (td_draw_action example_td example_agent 3)
              - Q_table example_agent ! 2 ! 0) * e1 ! i ! j"
    by (auto simp: Let_def smp_def)
  have e1: "e1 = [[0, 0], [0, 0], [1, 0], [0, 0]]"
    using eu by (simp add: ex_defs eval_nat_numeral)
  have "in_table (Q_table example_agent) 2 0" using h4 by (simp add: smp_def)
  from q[OF this] have "Q_table ag' ! 2 ! 0 = 5 + 1 / 2 * (1 + 1 / 2 * 7 - 5) * 1"
    by (simp add: e1) (simp add: ex_defs eval_nat_numeral)
  with h1 h2 l h4 h5 h6 s f u show ?thesis by (simp add: smp_def)
qed

end
